theory Spec2Isabelle
  imports Complex_Main "HOL-Library.Word" "HOL-Library.Log_Nat"
begin

section \<open>Soft robotic flower: the behaviour engine of bloom.ino\<close>

text \<open>
  The sketch runs on an Arduino UNO (AVR): \<open>int\<close> has 16 bits, \<open>long\<close> and
  \<open>unsigned long\<close> have 32 bits, \<open>uint8_t\<close> and \<open>uint16_t\<close> have 8 and 16 bits.

  Numbers are modelled as follows.
  \<^item> \<open>unsigned long\<close>, \<open>uint16_t\<close>, \<open>uint8_t\<close>: words of 32, 16 and 8 bits, whose
    arithmetic wraps around.
  \<^item> \<open>long\<close> and \<open>int\<close>: mathematical integers, every result wrapped into the
    32-bit (\<open>to_long\<close>) or 16-bit (\<open>to_int16\<close>) two's complement range.
  \<^item> \<open>float\<close>: the real numbers that IEEE 754 single precision represents. Every
    float operation of the source is the exact operation followed by the rounding
    \<open>fl\<close>; a decimal literal such as \<open>0.1f\<close> is \<open>fl 0.1\<close>; literals that
    single precision represents exactly (small integers, 0.5, 0.25, 3.5) are written as
    they are.
  A conversion from float to an integer type truncates towards zero. C leaves the
  conversion of a value outside the target range undefined; the model wraps it.
\<close>

subsection \<open>Single-precision arithmetic\<close>

text \<open>
  Rounding to the nearest integer, a tie going to the even one.
\<close>

definition round_even :: "real \<Rightarrow> int" where
  "round_even x =
     (let n = \<lfloor>x\<rfloor>; d = x - real_of_int n
      in if d < 1 / 2 then n else if 1 / 2 < d then n + 1 else if even n then n else n + 1)"

text \<open>
  \<open>flog x\<close> is the binary exponent of \<open>x\<close>, the integer \<open>e\<close> with
  \<open>2^e \<le> |x| < 2^(e+1)\<close>, computed from the bit length of the integer part of
  \<open>|x|\<close> or of \<open>1 / |x|\<close>. \<open>fexp\<close> stops it at -126, below which single
  precision is subnormal, and \<open>ulp x\<close> is the distance between the representable
  numbers around \<open>x\<close>: 24 significant bits. \<open>fl x\<close> is the representable number
  nearest to \<open>x\<close>, ties to even. Results of magnitude \<open>2^128\<close> and more, which
  single precision turns into infinities, and NaN are outside this model.
\<close>

definition flog :: "real \<Rightarrow> int" where
  "flog x = (if 1 \<le> \<bar>x\<bar> then bitlen \<lfloor>\<bar>x\<bar>\<rfloor> - 1 else - bitlen (\<lceil>1 / \<bar>x\<bar>\<rceil> - 1))"

definition fexp :: "real \<Rightarrow> int" where
  "fexp x = max (- 126) (flog x)"

definition ulp :: "real \<Rightarrow> real" where
  "ulp x = 2 powi (fexp x - 23)"

definition fl :: "real \<Rightarrow> real" where
  "fl x = real_of_int (round_even (x / ulp x)) * ulp x"

definition fadd :: "real \<Rightarrow> real \<Rightarrow> real" where
  "fadd a b = fl (a + b)"

definition fsub :: "real \<Rightarrow> real \<Rightarrow> real" where
  "fsub a b = fl (a - b)"

definition fmul :: "real \<Rightarrow> real \<Rightarrow> real" where
  "fmul a b = fl (a * b)"

definition fdiv :: "real \<Rightarrow> real \<Rightarrow> real" where
  "fdiv a b = fl (a / b)"

text \<open>
  \<open>sinf\<close> and \<open>powf\<close> are library functions; they are taken to return the
  rounding of the exact value. What is proved about them below is that their results
  stay within [-1,1] and, for a base in [0,1], within [0,1].
\<close>

definition sinf :: "real \<Rightarrow> real" where
  "sinf x = fl (sin x)"

definition powf :: "real \<Rightarrow> real \<Rightarrow> real" where
  "powf x y = fl (x powr y)"

subsection \<open>Integer and float conversions\<close>

definition to_long :: "int \<Rightarrow> int" where
  "to_long i = (i + 2147483648) mod 4294967296 - 2147483648"

definition to_int16 :: "int \<Rightarrow> int" where
  "to_int16 i = (i + 32768) mod 65536 - 32768"

definition trunc :: "real \<Rightarrow> int" where
  "trunc r = (if 0 \<le> r then \<lfloor>r\<rfloor> else \<lceil>r\<rceil>)"

definition long_of_float :: "real \<Rightarrow> int" where
  "long_of_float r = to_long (trunc r)"

definition ulong_of_float :: "real \<Rightarrow> 32 word" where
  "ulong_of_float r = word_of_int (trunc r)"

definition uint8_of_float :: "real \<Rightarrow> 8 word" where
  "uint8_of_float r = word_of_int (trunc r)"

text \<open>Division of C integers truncates towards zero.\<close>

definition c_div :: "int \<Rightarrow> int \<Rightarrow> int" where
  "c_div a b = sgn a * sgn b * (\<bar>a\<bar> div \<bar>b\<bar>)"

text \<open>
  Modelled from the spec: the function \<open>map\<close> belongs to the Arduino core, not to this
  repository. The spec (4.2 and 8) calls it a linear remap of the error magnitude into a
  PWM sub-range; the definition is the core's formula
  \<open>(x - in_min) * (out_max - out_min) / (in_max - in_min) + out_min\<close>, computed in
  \<open>long\<close>. Both regulators call it with \<open>in_min = 0\<close> and \<open>in_max\<close> 110 or 600,
  so the divisor is never zero.
\<close>

definition map_long :: "int \<Rightarrow> int \<Rightarrow> int \<Rightarrow> int \<Rightarrow> int \<Rightarrow> int" where
  "map_long x in_min in_max out_min out_max =
     (let num = to_long (to_long (x - in_min) * to_long (out_max - out_min));
          den = to_long (in_max - in_min)
      in to_long (to_long (c_div num den) + out_min))"

subsection \<open>Global state and pins\<close>

datatype State = NEUTRAL | CALM | CURIOUS | ANGRY | SAD

definition PIN_PUMP_BASE :: nat where "PIN_PUMP_BASE = 6"
definition PIN_VALVE_BASE :: nat where "PIN_VALVE_BASE = 5"
definition PIN_PUMP_LEAVES :: nat where "PIN_PUMP_LEAVES = 11"
definition PIN_VALVE_LEAVES :: nat where "PIN_VALVE_LEAVES = 3"
definition NUM_LEDS :: "8 word" where "NUM_LEDS = 16"

text \<open>
  The mutable globals of the sketch that the modelled functions read or write, and
  \<open>pwm\<close>: for every pin the value of the last \<open>analogWrite\<close> to it, which is the
  command the actuator on that pin has received.
\<close>

record globals =
  SPEED_FACTOR :: real
  current :: State
  stateEndMs :: "32 word"
  prevDesiredPMiddle :: real
  ledChaseIndex :: "16 word"
  pwm :: "nat \<Rightarrow> int"

definition analogWrite :: "nat \<Rightarrow> int \<Rightarrow> globals \<Rightarrow> globals" where
  "analogWrite pin val g = g\<lparr>pwm := (pwm g)(pin := val)\<rparr>"

subsection \<open>Pressure regulators\<close>

text \<open>
  \<open>a1\<close> and \<open>a2\<close> stand for the results of \<open>analogRead(A1)\<close> and
  \<open>analogRead(A2)\<close>, which the 10-bit converter takes from 0 to 1023.
\<close>

definition setPressureMiddle :: "real \<Rightarrow> real \<Rightarrow> real \<Rightarrow> int \<Rightarrow> globals \<Rightarrow> globals" where
  "setPressureMiddle desiredP inMin inMax a1 g =
     (let minP = 40; maxP = 110;
          desiredP' = fadd (fmul (fsub maxP minP) desiredP) minP;
          currentP = fl (real_of_int a1);
          error = fsub currentP desiredP';
          g' = (if error < - 10 then
                  (let val = to_int16 (map_long (long_of_float (fmul error (- 1))) 0 (long_of_float maxP) 50 255)
                   in analogWrite PIN_VALVE_BASE 0 (analogWrite PIN_PUMP_BASE val g))
                else if error > 10 then
                  (let val = to_int16 (map_long (long_of_float error) 0 (long_of_float maxP) 230 255)
                   in analogWrite PIN_PUMP_BASE 0 (analogWrite PIN_VALVE_BASE val g))
                else analogWrite PIN_VALVE_BASE 0 (analogWrite PIN_PUMP_BASE 0 g))
      in g'\<lparr>prevDesiredPMiddle := currentP\<rparr>)"

definition setPressureLeaves :: "real \<Rightarrow> real \<Rightarrow> real \<Rightarrow> int \<Rightarrow> globals \<Rightarrow> globals" where
  "setPressureLeaves desiredP inMin inMax a2 g =
     (let minP = 40; maxP = 600;
          desiredP' = fadd (fmul (fsub maxP minP) desiredP) minP;
          currentP = fl (real_of_int a2);
          error = fsub currentP desiredP'
      in if error < - 10 then
           (let val = to_int16 (map_long (long_of_float (fmul error (- 1))) 0 (long_of_float maxP) 100 255)
            in analogWrite PIN_VALVE_LEAVES 0 (analogWrite PIN_PUMP_LEAVES val g))
         else if error > 10 then
           (let val = to_int16 (map_long (long_of_float error) 0 (long_of_float maxP) 230 255)
            in analogWrite PIN_PUMP_LEAVES 0 (analogWrite PIN_VALVE_LEAVES val g))
         else analogWrite PIN_VALVE_LEAVES 0 (analogWrite PIN_PUMP_LEAVES 0 g))"

text \<open>
  The error of the two regulators as a function of level and reading: the value of the
  variable \<open>error\<close>, which the source computes in single precision, and the exact
  difference between the reading and the target pressure.
\<close>

definition computedErrorMiddle :: "real \<Rightarrow> int \<Rightarrow> real" where
  "computedErrorMiddle desiredP a1 =
     fsub (fl (real_of_int a1)) (fadd (fmul (fsub 110 40) desiredP) 40)"

definition computedErrorLeaves :: "real \<Rightarrow> int \<Rightarrow> real" where
  "computedErrorLeaves desiredP a2 =
     fsub (fl (real_of_int a2)) (fadd (fmul (fsub 600 40) desiredP) 40)"

definition errorMiddle :: "real \<Rightarrow> int \<Rightarrow> real" where
  "errorMiddle desiredP a1 = real_of_int a1 - ((110 - 40) * desiredP + 40)"

definition errorLeaves :: "real \<Rightarrow> int \<Rightarrow> real" where
  "errorLeaves desiredP a2 = real_of_int a2 - ((600 - 40) * desiredP + 40)"

subsection \<open>Random sampling: dwell time and next state\<close>

text \<open>
  \<open>rnd\<close> stands for the result of \<open>random(0, 10000)\<close>, a \<open>long\<close> from 0 to 9999.
\<close>

definition frand :: "real \<Rightarrow> real \<Rightarrow> int \<Rightarrow> real" where
  "frand a b rnd = fadd a (fmul (fsub b a) (fdiv (fl (real_of_int rnd)) 10000))"

datatype Range = Range (lo: real) (hi: real)

fun DWELL :: "State \<Rightarrow> Range" where
  "DWELL NEUTRAL = Range 5 7"
| "DWELL CALM = Range 7 15"
| "DWELL CURIOUS = Range 5 10"
| "DWELL ANGRY = Range 10 13"
| "DWELL SAD = Range 5 12"

text \<open>
  With \<open>SPEED_FACTOR = 0\<close> the float division of the source gives an infinity, whose
  conversion is undefined; HOL's division gives 0 there.
\<close>

definition sampleDwellMillis :: "globals \<Rightarrow> State \<Rightarrow> int \<Rightarrow> 32 word" where
  "sampleDwellMillis g s rnd =
     (let secs = fdiv (frand (lo (DWELL s)) (hi (DWELL s)) rnd) (SPEED_FACTOR g)
      in ulong_of_float (fmul secs 1000))"

text \<open>The transition matrix: one row for each state, indexed by the next state's number.\<close>

fun P :: "State \<Rightarrow> nat \<Rightarrow> real" where
  "P NEUTRAL n = [fl 0.10, fl 0.35, fl 0.25, fl 0.15, fl 0.15] ! n"
| "P CALM n = [fl 0.25, fl 0.10, fl 0.30, fl 0.20, fl 0.15] ! n"
| "P CURIOUS n = [fl 0.10, fl 0.25, fl 0.10, fl 0.25, fl 0.30] ! n"
| "P ANGRY n = [fl 0.25, fl 0.20, fl 0.10, fl 0.10, fl 0.35] ! n"
| "P SAD n = [fl 0.30, fl 0.30, fl 0.10, fl 0.20, fl 0.10] ! n"

text \<open>The cast \<open>(State)n\<close>; the sampler only casts numbers from 0 to 4.\<close>

definition State_of :: "nat \<Rightarrow> State" where
  "State_of n = (if n = 0 then NEUTRAL else if n = 1 then CALM else if n = 2 then CURIOUS
                 else if n = 3 then ANGRY else SAD)"

text \<open>
  The loop of \<open>sampleNextState\<close> over one row: \<open>acc\<close> and \<open>n\<close> are the loop's
  variables; the result is the number returned, 4 after the loop.
\<close>

function rouletteLoop :: "(nat \<Rightarrow> real) \<Rightarrow> real \<Rightarrow> real \<Rightarrow> nat \<Rightarrow> nat" where
  "rouletteLoop row r acc n =
     (if n < 5 then
        (let acc' = fadd acc (row n)
         in if r \<le> acc' then n else rouletteLoop row r acc' (n + 1))
      else 4)"
  by pat_completeness auto
termination
  by (relation "measure (\<lambda>(row, r, acc, n). 5 - n)") auto

declare rouletteLoop.simps [simp del]

text \<open>The sampler over any matrix \<open>Pm\<close>, and the sampler of the sketch over \<open>P\<close>.\<close>

definition sampleNextStateP :: "(State \<Rightarrow> nat \<Rightarrow> real) \<Rightarrow> State \<Rightarrow> int \<Rightarrow> State" where
  "sampleNextStateP Pm s rnd = (let r = frand 0 1 rnd in State_of (rouletteLoop (Pm s) r 0 0))"

definition sampleNextState :: "State \<Rightarrow> int \<Rightarrow> State" where
  "sampleNextState s rnd = sampleNextStateP P s rnd"

text \<open>
  Roulette-wheel selection in the spec's words: the first state, from left to right, whose
  cumulative row sum is at least \<open>r\<close>; the last state of the row when there is none.
  The cumulative sum is the one the source accumulates: it starts from \<open>0.0f\<close> and
  adds the entries from the left, each addition in single precision.
\<close>

fun cumulative :: "(nat \<Rightarrow> real) \<Rightarrow> nat \<Rightarrow> real" where
  "cumulative row 0 = fadd 0 (row 0)"
| "cumulative row (Suc n) = fadd (cumulative row n) (row (Suc n))"

definition roulette_spec :: "(nat \<Rightarrow> real) \<Rightarrow> real \<Rightarrow> State" where
  "roulette_spec row r =
     (case find (\<lambda>n. r \<le> cumulative row n) [0..<5] of
        Some n \<Rightarrow> State_of n
      | None \<Rightarrow> SAD)"

subsection \<open>Waveforms\<close>

text \<open>
  \<open>heartPulse\<close> divides by its period as it comes: with period 0 the remainder
  \<open>t % period\<close> is undefined, which is the result \<open>None\<close>.
\<close>

definition triWave :: "32 word \<Rightarrow> 32 word \<Rightarrow> real \<Rightarrow> real \<Rightarrow> real" where
  "triWave t period minL maxL =
     (let period' = (if period < 10 then 10 else period);
          x = t mod period';
          phase = fdiv (fl (real (unat x))) (fl (real (unat period')));
          y = (if phase < 0.5 then fmul phase 2 else fsub 2 (fmul phase 2))
      in fadd minL (fmul (fsub maxL minL) y))"

definition sineWave :: "32 word \<Rightarrow> 32 word \<Rightarrow> real \<Rightarrow> real \<Rightarrow> real" where
  "sineWave t period minL maxL =
     (let period' = (if period < 10 then 10 else period);
          phase = fdiv (fl (real (unat (t mod period')))) (fl (real (unat period')));
          y = fadd 0.5 (fmul 0.5 (sinf (fmul (fmul 2 (fl 3.14159)) phase)))
      in fadd minL (fmul (fsub maxL minL) y))"

definition squareWave :: "32 word \<Rightarrow> 32 word \<Rightarrow> real \<Rightarrow> real" where
  "squareWave t period duty =
     (let period' = (if period < 10 then 10 else period);
          phase = fdiv (fl (real (unat (t mod period')))) (fl (real (unat period')))
      in if phase < duty then 1 else 0)"

definition heartPulse :: "32 word \<Rightarrow> 32 word \<Rightarrow> real option" where
  "heartPulse t period =
     (if period = 0 then None
      else (let phase = fdiv (fl (real (unat (t mod period)))) (fl (real (unat period)));
                s = sinf (fmul (fmul 2 (fl 3.14159)) phase);
                y = powf \<bar>s\<bar> 3.5
            in Some y))"

subsection \<open>LED ring\<close>

text \<open>
  The ring is an external device. What a behaviour sends to it is the list of the calls
  it makes: \<open>setBrightness\<close>, \<open>setPixelColor\<close> with the pixel's number and its
  colour, and \<open>show\<close>.
\<close>

datatype RGB = RGB "8 word" "8 word" "8 word"

datatype led_cmd = SetBrightness "8 word" | SetPixelColor "8 word" RGB | Show

text \<open>The remainder of C's integer division has the sign of the dividend.\<close>

definition c_mod :: "int \<Rightarrow> int \<Rightarrow> int" where
  "c_mod a b = a - b * c_div a b"

definition hsv :: "real \<Rightarrow> real \<Rightarrow> real \<Rightarrow> RGB" where
  "hsv h s v =
     (let i = real_of_int \<lfloor>fmul h 6\<rfloor>;
          f = fsub (fmul h 6) i;
          p = fmul v (fsub 1 s);
          q = fmul v (fsub 1 (fmul f s));
          t = fmul v (fsub 1 (fmul (fsub 1 f) s));
          k = c_mod (to_int16 (trunc i)) 6;
          (r, g, b) = (if k = 0 then (v, t, p)
                       else if k = 1 then (q, v, p)
                       else if k = 2 then (p, v, t)
                       else if k = 3 then (p, q, v)
                       else if k = 4 then (t, p, v)
                       else (v, p, q))
      in RGB (uint8_of_float (fmul r 255)) (uint8_of_float (fmul g 255))
             (uint8_of_float (fmul b 255)))"

text \<open>The values of the loop variable \<open>i\<close> in \<open>for (uint8_t i=0; i<NUM_LEDS; ++i)\<close>.\<close>

definition pixels :: "8 word list" where
  "pixels = map of_nat [0..<unat NUM_LEDS]"

text \<open>\<open>ledsFill\<close> without its tag, which only the disabled debug output reads.\<close>

definition ledsFill :: "8 word \<Rightarrow> 8 word \<Rightarrow> 8 word \<Rightarrow> 8 word \<Rightarrow> led_cmd list" where
  "ledsFill r g b brightness =
     SetBrightness brightness # map (\<lambda>i. SetPixelColor i (RGB r g b)) pixels @ [Show]"

subsection \<open>Behaviours\<close>

text \<open>
  A behaviour is a procedure. Its model returns the new globals and, for the claims about
  them, the two levels it hands to the regulators and the calls it sends to the ring.
  \<open>now\<close> is the clock reading; \<open>a1\<close> and \<open>a2\<close> are the sensor readings.
\<close>

record tick_out =
  levelBase :: real
  levelLeaves :: real
  visual :: "led_cmd list"

definition runNeutral :: "32 word \<Rightarrow> int \<Rightarrow> int \<Rightarrow> globals \<Rightarrow> tick_out \<times> globals" where
  "runNeutral now a1 a2 g =
     (let period = ulong_of_float (fdiv 8000 (SPEED_FACTOR g));
          baseL = sineWave now period (fl 0.1) (fl 0.85);
          g1 = setPressureMiddle baseL 0 1 a1 g;
          g2 = setPressureLeaves 0 0 1 a2 g1
      in (\<lparr>levelBase = baseL, levelLeaves = 0, visual = ledsFill 100 100 100 100\<rparr>, g2))"

definition runCalm :: "32 word \<Rightarrow> int \<Rightarrow> int \<Rightarrow> globals \<Rightarrow> tick_out \<times> globals" where
  "runCalm now a1 a2 g =
     (let period = ulong_of_float (fdiv 8000 (SPEED_FACTOR g));
          baseL = sineWave now period (fl 0.1) (fl 0.85);
          leavesL = sineWave (now + ulong_of_float (fdiv 500 (SPEED_FACTOR g))) period
                      (fl 0.1) (fl 0.55);
          g1 = setPressureMiddle baseL 0 1 a1 g;
          g2 = setPressureLeaves leavesL 0 1 a2 g1;
          bright = uint8_of_float (fadd 20 (fmul baseL 120))
      in case hsv (fl 0.48) (fl 0.6) (fl 0.9) of RGB cr cg cb \<Rightarrow>
           (\<lparr>levelBase = baseL, levelLeaves = leavesL, visual = ledsFill cr cg cb bright\<rparr>, g2))"

definition runCurious :: "32 word \<Rightarrow> int \<Rightarrow> int \<Rightarrow> globals \<Rightarrow> tick_out \<times> globals" where
  "runCurious now a1 a2 g =
     (let pulsePeriod = ulong_of_float (fdiv 1200 (SPEED_FACTOR g));
          leavesPulse = triWave now pulsePeriod (fl 0.15) (fl 0.85);
          g1 = setPressureMiddle 0.5 0 1 a1 g;
          g2 = setPressureLeaves leavesPulse 0 1 a2 g1;
          ring = map (\<lambda>i.
                   let idx = (ucast ((ucast i + ledChaseIndex g2 div 2) mod ucast NUM_LEDS) :: 8 word);
                       atten = (if idx = i then 1 else 0.25 :: real)
                   in SetPixelColor idx (RGB (uint8_of_float (fmul 220 atten))
                                             (uint8_of_float (fmul 180 atten))
                                             (uint8_of_float (fmul 40 atten)))) pixels;
          g3 = g2\<lparr>ledChaseIndex := (ledChaseIndex g2 + 1) mod (ucast NUM_LEDS * 4)\<rparr>
      in (\<lparr>levelBase = 0.5, levelLeaves = leavesPulse,
           visual = SetBrightness 60 # ring @ [Show]\<rparr>, g3))"

definition runAngry :: "32 word \<Rightarrow> int \<Rightarrow> int \<Rightarrow> globals \<Rightarrow> (tick_out \<times> globals) option" where
  "runAngry now a1 a2 g =
     (let burstPeriod = ulong_of_float (fdiv 900 (SPEED_FACTOR g));
          baseL = squareWave now burstPeriod (fl 0.45);
          leavesL = fadd 0.5 (fmul baseL (fsub (fl 0.8) 0.5));
          g1 = setPressureMiddle baseL 0 1 a1 g;
          g2 = setPressureLeaves leavesL 0 1 a2 g1
      in case heartPulse now (ulong_of_float (fdiv 500 (SPEED_FACTOR g2))) of
           None \<Rightarrow> None
         | Some hb \<Rightarrow>
            (let brightness = uint8_of_float (fadd 80 (fmul hb 120));
                 ring = map (\<lambda>i.
                          let on = (if ucast i = ledChaseIndex g2 mod ucast NUM_LEDS then 40 else 0 :: 8 word)
                          in SetPixelColor i (RGB 255 (60 + on) 0)) pixels;
                 g3 = (if now mod 60 = 0 then g2\<lparr>ledChaseIndex := ledChaseIndex g2 + 1\<rparr> else g2)
             in Some (\<lparr>levelBase = baseL, levelLeaves = leavesL,
                       visual = SetBrightness brightness # ring @ [Show]\<rparr>, g3)))"

definition runSad :: "32 word \<Rightarrow> int \<Rightarrow> int \<Rightarrow> globals \<Rightarrow> tick_out \<times> globals" where
  "runSad now a1 a2 g =
     (let period = ulong_of_float (fdiv 12000 (SPEED_FACTOR g));
          baseL = sineWave now period (fl 0.05) (fl 0.35);
          leavesL = sineWave (now + ulong_of_float (fdiv 800 (SPEED_FACTOR g))) period
                      (fl 0.03) (fl 0.25);
          g1 = setPressureMiddle baseL 0 1 a1 g;
          g2 = setPressureLeaves leavesL 0 1 a2 g1;
          v = fadd (fl 0.15) (fmul baseL (fl 0.4));
          bright = uint8_of_float (fadd 30 (fmul v 80))
      in case hsv (fl 0.70) (fl 0.6) v of RGB cr cg cb \<Rightarrow>
           (\<lparr>levelBase = baseL, levelLeaves = leavesL, visual = ledsFill cr cg cb bright\<rparr>, g2))"

fun runBehavior :: "State \<Rightarrow> 32 word \<Rightarrow> int \<Rightarrow> int \<Rightarrow> globals \<Rightarrow> (tick_out \<times> globals) option" where
  "runBehavior NEUTRAL now a1 a2 g = Some (runNeutral now a1 a2 g)"
| "runBehavior CALM now a1 a2 g = Some (runCalm now a1 a2 g)"
| "runBehavior CURIOUS now a1 a2 g = Some (runCurious now a1 a2 g)"
| "runBehavior ANGRY now a1 a2 g = runAngry now a1 a2 g"
| "runBehavior SAD now a1 a2 g = Some (runSad now a1 a2 g)"

text \<open>What a call of \<open>runBehavior\<close> lets one observe, when it returns.\<close>

definition levels_of :: "(tick_out \<times> globals) option \<Rightarrow> (real \<times> real) option" where
  "levels_of res = map_option (\<lambda>x. (levelBase (fst x), levelLeaves (fst x))) res"

definition visual_of :: "(tick_out \<times> globals) option \<Rightarrow> led_cmd list option" where
  "visual_of res = map_option (\<lambda>x. visual (fst x)) res"

definition chase_of :: "(tick_out \<times> globals) option \<Rightarrow> 16 word option" where
  "chase_of res = map_option (\<lambda>x. ledChaseIndex (snd x)) res"

subsection \<open>State entry and the loop\<close>

text \<open>
  \<open>enterState\<close>, with \<open>ms\<close> for its reading of \<open>millis()\<close>; its serial output is
  left out. \<open>loop\<close> is one iteration, with \<open>now\<close> for its reading of \<open>millis()\<close>:
  the only statements of its body that are not commented out are the call of
  \<open>runNeutral\<close> and the delay, which changes no variable.
\<close>

definition enterState :: "State \<Rightarrow> int \<Rightarrow> 32 word \<Rightarrow> globals \<Rightarrow> globals" where
  "enterState s rnd ms g =
     (let dwell = sampleDwellMillis g s rnd in g\<lparr>stateEndMs := ms + dwell\<rparr>)"

definition loop :: "32 word \<Rightarrow> int \<Rightarrow> int \<Rightarrow> globals \<Rightarrow> tick_out \<times> globals" where
  "loop now a1 a2 g = runNeutral now a1 a2 g"

text \<open>The globals with the values of their declarations, every pin at 0 as \<open>setup\<close> writes.\<close>

definition g_init :: globals where
  "g_init = \<lparr>SPEED_FACTOR = 1, current = NEUTRAL, stateEndMs = 0, prevDesiredPMiddle = 0,
             ledChaseIndex = 0, pwm = (\<lambda>pin. 0)\<rparr>"

section \<open>Properties of single-precision rounding\<close>

lemma round_even_int [simp]: "round_even (real_of_int n) = n"
  by (simp add: round_even_def)

lemma round_even_bounds: "\<lfloor>x\<rfloor> \<le> round_even x" "round_even x \<le> \<lfloor>x\<rfloor> + 1"
  by (simp_all add: round_even_def Let_def)

lemma round_even_mono:
  assumes "x \<le> y"
  shows "round_even x \<le> round_even y"
proof (cases "\<lfloor>x\<rfloor> = \<lfloor>y\<rfloor>")
  case True
  with assms show ?thesis
    by (auto simp add: round_even_def Let_def)
next
  case False
  with assms have "\<lfloor>x\<rfloor> < \<lfloor>y\<rfloor>"
    using floor_mono [OF assms] by linarith
  then have "round_even x \<le> \<lfloor>y\<rfloor>"
    using round_even_bounds(2) [of x] by linarith
  then show ?thesis
    using round_even_bounds(1) [of y] by linarith
qed

lemma round_even_neg: "round_even (- x) = - round_even x"
proof (cases "x \<in> \<int>")
  case True
  then obtain n where "x = real_of_int n" by (auto elim: Ints_cases)
  then have "round_even (- x) = round_even (real_of_int (- n))" by simp
  also have "\<dots> = - n" by (rule round_even_int)
  finally show ?thesis using \<open>x = real_of_int n\<close> by simp
next
  case False
  then have ne: "x \<noteq> real_of_int \<lfloor>x\<rfloor>"
    by (metis Ints_of_int)
  then have fl: "\<lfloor>- x\<rfloor> = - \<lfloor>x\<rfloor> - 1"
    by (simp add: floor_minus ceiling_altdef)
  show ?thesis
    unfolding round_even_def Let_def fl
    by (auto simp add: algebra_simps)
qed

lemma round_even_ge: "real_of_int n \<le> x \<Longrightarrow> n \<le> round_even x"
  using round_even_mono [of "real_of_int n" x] by simp

lemma round_even_le: "x \<le> real_of_int n \<Longrightarrow> round_even x \<le> n"
  using round_even_mono [of x "real_of_int n"] by simp


lemma flog_bounds:
  assumes "x \<noteq> 0"
  shows "2 powi (flog x) \<le> \<bar>x\<bar>" "\<bar>x\<bar> < 2 powi (flog x + 1)"
proof -
  have "2 powi (flog x) \<le> \<bar>x\<bar> \<and> \<bar>x\<bar> < 2 powi (flog x + 1)"
  proof (cases "1 \<le> \<bar>x\<bar>")
    case True
    define n where "n = \<lfloor>\<bar>x\<bar>\<rfloor>"
    have n: "0 < n" using True by (simp add: n_def)
    have b: "1 \<le> bitlen n" using n by (simp add: bitlen_alt_def)
    have e: "flog x = bitlen n - 1" using True by (simp add: flog_def n_def)
    from bitlen_bounds [OF n]
    have lo: "2 ^ nat (bitlen n - 1) \<le> n" and hi: "n < 2 ^ nat (bitlen n)" by simp_all
    have "real_of_int (2 ^ nat (bitlen n - 1)) \<le> real_of_int n"
      using lo by (simp only: of_int_le_iff)
    also have "\<dots> \<le> \<bar>x\<bar>" by (simp add: n_def)
    finally have l: "2 powi (bitlen n - 1) \<le> \<bar>x\<bar>"
      using b by (simp add: power_int_def)
    have "n + 1 \<le> 2 ^ nat (bitlen n)" using hi by simp
    then have "real_of_int (n + 1) \<le> real_of_int (2 ^ nat (bitlen n))"
      by (simp only: of_int_le_iff)
    moreover have "\<bar>x\<bar> < real_of_int (n + 1)"
      unfolding n_def by linarith
    ultimately have "\<bar>x\<bar> < real_of_int (2 ^ nat (bitlen n))" by linarith
    then have h: "\<bar>x\<bar> < 2 powi (bitlen n)"
      using b by (simp add: power_int_def)
    show ?thesis using l h by (simp add: e)
  next
    case False
    define y where "y = 1 / \<bar>x\<bar>"
    define m where "m = \<lceil>y\<rceil>"
    have x0: "0 < \<bar>x\<bar>" using assms by simp
    have y1: "1 < y" using False x0 by (simp add: y_def)
    have m2: "2 \<le> m" unfolding m_def using y1 by linarith
    then have m1: "0 < m - 1" by simp
    define k where "k = bitlen (m - 1)"
    have k1: "1 \<le> k" using m1 by (simp add: k_def bitlen_alt_def)
    have e: "flog x = - k" using False by (simp add: flog_def k_def m_def y_def)
    from bitlen_bounds [OF m1]
    have lo: "2 ^ nat (k - 1) \<le> m - 1" and hi: "m - 1 < 2 ^ nat k" by (simp_all add: k_def)
    have "m \<le> 2 ^ nat k" using hi by simp
    then have "real_of_int m \<le> real_of_int (2 ^ nat k)" by (simp only: of_int_le_iff)
    moreover have "y \<le> real_of_int m" by (simp add: m_def)
    moreover have "real_of_int (2 ^ nat k) = (2::real) ^ nat k" by simp
    ultimately have yk: "y \<le> 2 ^ nat k" by linarith
    have "real_of_int (2 ^ nat (k - 1)) \<le> real_of_int (m - 1)"
      using lo by (simp only: of_int_le_iff)
    moreover have "real_of_int (m - 1) < y" unfolding m_def by linarith
    moreover have "real_of_int (2 ^ nat (k - 1)) = (2::real) ^ nat (k - 1)" by simp
    ultimately have ky: "2 ^ nat (k - 1) < y" by linarith
    have k0: "0 \<le> k" "0 \<le> k - 1" using k1 by simp_all
    have p1: "(2::real) powi (- k) = 1 / 2 ^ nat k"
      by (simp only: power_int_minus power_int_nonneg_exp [OF k0(1)] inverse_eq_divide)
    have "(2::real) powi (- k + 1) = 2 powi (- (k - 1))" by simp
    also have "\<dots> = 1 / 2 ^ nat (k - 1)"
      by (simp only: power_int_minus power_int_nonneg_exp [OF k0(2)] inverse_eq_divide)
    finally have p2: "(2::real) powi (- k + 1) = 1 / 2 ^ nat (k - 1)" .
    have "1 / 2 ^ nat k \<le> \<bar>x\<bar>"
      using yk x0 by (simp add: y_def field_simps)
    moreover have "\<bar>x\<bar> < 1 / 2 ^ nat (k - 1)"
      using ky x0 by (simp add: y_def field_simps)
    ultimately show ?thesis unfolding e p1 p2 by simp
  qed
  then show "2 powi (flog x) \<le> \<bar>x\<bar>" "\<bar>x\<bar> < 2 powi (flog x + 1)" by simp_all
qed

lemma flog_unique:
  assumes "2 powi e \<le> \<bar>x\<bar>" "\<bar>x\<bar> < 2 powi (e + 1)"
  shows "flog x = e"
proof -
  have x: "x \<noteq> 0"
  proof
    assume "x = 0"
    with assms(1) have "2 powi e \<le> (0::real)" by simp
    moreover have "(0::real) < 2 powi e" by simp
    ultimately show False by linarith
  qed
  note b = flog_bounds [OF x]
  have "\<not> flog x < e"
  proof
    assume "flog x < e"
    then have "(2::real) powi (flog x + 1) \<le> 2 powi e"
      by (intro power_int_increasing) auto
    with b(2) assms(1) show False by linarith
  qed
  moreover have "\<not> e < flog x"
  proof
    assume "e < flog x"
    then have "(2::real) powi (e + 1) \<le> 2 powi (flog x)"
      by (intro power_int_increasing) auto
    with b(1) assms(2) show False by linarith
  qed
  ultimately show ?thesis by linarith
qed

lemma flog_neg [simp]: "flog (- x) = flog x"
  by (simp add: flog_def)

lemma ulp_neg [simp]: "ulp (- x) = ulp x"
  by (simp add: ulp_def fexp_def)

lemma ulp_pos [simp]: "0 < ulp x"
  by (simp add: ulp_def)

lemma round_even_0 [simp]: "round_even 0 = 0"
  using round_even_int [of 0] by simp

lemma fl_0 [simp]: "fl 0 = 0"
  by (simp add: fl_def)

lemma fl_neg: "fl (- x) = - fl x"
  by (simp add: fl_def round_even_neg)

lemma fl_nonneg: "0 \<le> x \<Longrightarrow> 0 \<le> fl x"
  unfolding fl_def
  by (intro mult_nonneg_nonneg) (auto intro!: round_even_ge simp add: less_imp_le)


lemma flog_mono:
  assumes "x \<noteq> 0" "\<bar>x\<bar> \<le> \<bar>y\<bar>"
  shows "flog x \<le> flog y"
proof (rule ccontr)
  assume "\<not> flog x \<le> flog y"
  then have "flog y + 1 \<le> flog x" by simp
  then have "(2::real) powi (flog y + 1) \<le> 2 powi (flog x)"
    by (intro power_int_increasing) auto
  moreover have "y \<noteq> 0" using assms by auto
  ultimately show False
    using flog_bounds(2) [of y] flog_bounds(1) [OF assms(1)] assms(2) by linarith
qed

lemma fexp_mono: "x \<noteq> 0 \<Longrightarrow> \<bar>x\<bar> \<le> \<bar>y\<bar> \<Longrightarrow> fexp x \<le> fexp y"
  using flog_mono [of x y] by (simp add: fexp_def)

lemma ulp_scale:
  "2 powi (fexp x) = 8388608 * ulp x"
  "2 powi (fexp x + 1) = 16777216 * ulp x"
proof -
  have "(2::real) powi (fexp x) = 2 powi ((fexp x - 23) + 23)"
    by (rule arg_cong [where f = "\<lambda>n. 2 powi n"]) simp
  also have "\<dots> = 2 powi (fexp x - 23) * 2 powi 23"
    by (rule power_int_add) simp
  finally show "2 powi (fexp x) = 8388608 * ulp x" by (simp add: ulp_def)
  have "(2::real) powi (fexp x + 1) = 2 powi ((fexp x - 23) + 24)"
    by (rule arg_cong [where f = "\<lambda>n. 2 powi n"]) simp
  also have "\<dots> = 2 powi (fexp x - 23) * 2 powi 24"
    by (rule power_int_add) simp
  finally show "2 powi (fexp x + 1) = 16777216 * ulp x" by (simp add: ulp_def)
qed

lemma fl_upper:
  assumes "0 < x"
  shows "fl x \<le> 2 powi (fexp x + 1)"
proof -
  have "flog x \<le> fexp x" by (simp add: fexp_def)
  then have "(2::real) powi (flog x + 1) \<le> 2 powi (fexp x + 1)"
    by (intro power_int_increasing) auto
  with flog_bounds(2) [of x] assms have "x \<le> 16777216 * ulp x"
    by (simp add: ulp_scale)
  then have "x / ulp x \<le> real_of_int 16777216"
    by (simp add: pos_divide_le_eq)
  then have "round_even (x / ulp x) \<le> 16777216" by (rule round_even_le)
  then have "real_of_int (round_even (x / ulp x)) \<le> 16777216" by linarith
  then have "real_of_int (round_even (x / ulp x)) * ulp x \<le> 16777216 * ulp x"
    by (intro mult_right_mono) (auto simp add: less_imp_le)
  then show ?thesis by (simp add: fl_def ulp_scale)
qed

lemma fl_lower:
  assumes "0 < x" "fexp x = flog x"
  shows "2 powi (fexp x) \<le> fl x"
proof -
  from flog_bounds(1) [of x] assms have "8388608 * ulp x \<le> x"
    by (simp add: ulp_scale [symmetric])
  then have "real_of_int 8388608 \<le> x / ulp x"
    by (simp add: pos_le_divide_eq)
  then have "8388608 \<le> round_even (x / ulp x)" by (rule round_even_ge)
  then have "8388608 \<le> real_of_int (round_even (x / ulp x))" by linarith
  then have "8388608 * ulp x \<le> real_of_int (round_even (x / ulp x)) * ulp x"
    by (intro mult_right_mono) (auto simp add: less_imp_le)
  then show ?thesis by (simp add: fl_def ulp_scale)
qed

lemma fl_mono_pos:
  assumes "0 < x" "x \<le> y"
  shows "fl x \<le> fl y"
proof -
  have y: "0 < y" using assms by simp
  have le: "fexp x \<le> fexp y"
    using assms by (intro fexp_mono) auto
  show ?thesis
  proof (cases "fexp x = fexp y")
    case True
    then have u: "ulp x = ulp y" by (simp add: ulp_def)
    have "x / ulp y \<le> y / ulp y"
      using assms(2) by (intro divide_right_mono) (auto simp add: less_imp_le)
    then have "round_even (x / ulp y) \<le> round_even (y / ulp y)" by (rule round_even_mono)
    then have "real_of_int (round_even (x / ulp y)) * ulp y \<le> real_of_int (round_even (y / ulp y)) * ulp y"
      by (intro mult_right_mono) (auto simp add: less_imp_le)
    then show ?thesis by (simp add: fl_def u)
  next
    case False
    with le have lt: "fexp x + 1 \<le> fexp y" by simp
    then have "- 126 < fexp y" by (simp add: fexp_def)
    then have "fexp y = flog y" by (simp add: fexp_def max_def split: if_splits)
    then have "2 powi (fexp y) \<le> fl y" using y by (intro fl_lower)
    moreover have "fl x \<le> 2 powi (fexp x + 1)" using assms(1) by (rule fl_upper)
    moreover have "(2::real) powi (fexp x + 1) \<le> 2 powi (fexp y)"
      using lt by (intro power_int_increasing) auto
    ultimately show ?thesis by linarith
  qed
qed

lemma fl_mono:
  assumes "x \<le> y"
  shows "fl x \<le> fl y"
proof -
  consider "0 < x" | "x \<le> 0" "0 \<le> y" | "y < 0" by linarith
  then show ?thesis
  proof cases
    case 1
    then show ?thesis using assms by (rule fl_mono_pos)
  next
    case 2
    have "0 \<le> fl (- x)" using 2(1) by (intro fl_nonneg) simp
    then have "fl x \<le> 0" by (simp add: fl_neg)
    moreover have "0 \<le> fl y" using 2(2) by (rule fl_nonneg)
    ultimately show ?thesis by linarith
  next
    case 3
    then have "fl (- y) \<le> fl (- x)" using assms by (intro fl_mono_pos) auto
    then show ?thesis by (simp add: fl_neg)
  qed
qed


lemma fl_fix:
  assumes "x / ulp x = real_of_int m"
  shows "fl x = x"
proof -
  have "fl x = (x / ulp x) * ulp x" by (simp add: fl_def assms)
  also have "\<dots> = x"
    using ulp_pos [of x] by (simp add: less_imp_neq [THEN not_sym])
  finally show ?thesis .
qed

lemma fl_int:
  assumes "\<bar>n\<bar> < 16777216"
  shows "fl (real_of_int n) = real_of_int n"
proof -
  have pos: "fl (real_of_int k) = real_of_int k" if k: "0 < k" "k < 16777216" for k
  proof -
    have b1: "1 \<le> bitlen k" using k(1) by (simp add: bitlen_alt_def)
    have "k < 2 ^ nat 24" using k(2) by simp
    then have b2: "bitlen k \<le> 24" by (simp add: bitlen_le_iff_power)
    have "flog (real_of_int k) = bitlen k - 1"
      using k(1) by (simp add: flog_def)
    then have e: "fexp (real_of_int k) = bitlen k - 1"
      using b1 by (simp add: fexp_def)
    define j where "j = nat (24 - bitlen k)"
    have "(2::real) powi (bitlen k - 1 - 23) = 2 powi (- int j)"
      by (rule arg_cong [where f = "\<lambda>n. 2 powi n"]) (use b2 in \<open>simp add: j_def\<close>)
    also have "\<dots> = inverse (2 ^ j)"
      by (simp only: power_int_minus power_int_of_nat)
    finally have u: "ulp (real_of_int k) = inverse (2 ^ j)"
      by (simp add: ulp_def e)
    have "real_of_int k / ulp (real_of_int k) = real_of_int (k * 2 ^ j)"
      by (simp add: u divide_inverse)
    then show ?thesis by (rule fl_fix)
  qed
  consider "0 < n" | "n = 0" | "n < 0" by linarith
  then show ?thesis
  proof cases
    case 1
    then show ?thesis using assms by (intro pos) auto
  next
    case 2
    then show ?thesis by simp
  next
    case 3
    then have "fl (real_of_int (- n)) = real_of_int (- n)"
      using assms by (intro pos) auto
    then show ?thesis by (simp add: fl_neg)
  qed
qed

lemma fl_idem_pos:
  assumes "0 < x"
  shows "fl (fl x) = fl x"
proof -
  define u where "u = ulp x"
  define m where "m = round_even (x / u)"
  define z where "z = real_of_int m * u"
  have u0: "0 < u" by (simp add: u_def)
  have z: "fl x = z" by (simp add: fl_def z_def m_def u_def)
  have pw: "2 powi (fexp x) = 8388608 * u" "2 powi (fexp x + 1) = 16777216 * u"
    by (simp_all add: ulp_scale u_def)
  have "0 \<le> x / u" using assms u0 by simp
  then have "real_of_int 0 \<le> x / u" by simp
  then have m0: "0 \<le> m" unfolding m_def by (rule round_even_ge)
  have "fl x \<le> 16777216 * u" using fl_upper [OF assms] by (simp add: pw)
  then have "real_of_int m * u \<le> 16777216 * u" by (simp add: z z_def)
  then have "real_of_int m \<le> 16777216" using u0 by simp
  then have m24: "m \<le> 16777216" by linarith
  consider "m = 0" | "m = 16777216" | "0 < m" "m < 16777216" using m0 m24 by linarith
  then have "fl z = z"
  proof cases
    case 1
    then show ?thesis by (simp add: z_def)
  next
    case 2
    then have zp: "z = 2 powi (fexp x + 1)" by (simp add: z_def pw)
    have "(2::real) powi (fexp x + 1) < 2 powi (fexp x + 1 + 1)"
      by (intro power_int_strict_increasing) auto
    then have "flog z = fexp x + 1"
      unfolding zp by (intro flog_unique) auto
    moreover have "- 126 \<le> fexp x" by (simp add: fexp_def)
    ultimately have "fexp z = fexp x + 1" by (simp add: fexp_def)
    then have "ulp z = 2 powi ((fexp x - 23) + 1)"
      unfolding ulp_def by (intro arg_cong [where f = "\<lambda>n. 2 powi n"]) simp
    also have "\<dots> = 2 powi (fexp x - 23) * 2 powi 1"
      by (rule power_int_add) simp
    finally have uz: "ulp z = 2 * u" by (simp add: u_def ulp_def)
    have zu: "z = 16777216 * u" by (simp add: z_def 2)
    have "z / (2 * u) = real_of_int 8388608"
      using u0 unfolding zu by simp
    then have "z / ulp z = real_of_int 8388608" by (simp only: uz)
    then show ?thesis by (rule fl_fix)
  next
    case 3
    have zpos: "0 < z" using 3(1) u0 by (simp add: z_def)
    have "real_of_int m * u < 16777216 * u"
      using 3(2) u0 by simp
    then have zlt: "z < 2 powi (fexp x + 1)" by (simp add: z_def pw)
    have fz: "flog z \<le> fexp x"
    proof (rule ccontr)
      assume "\<not> flog z \<le> fexp x"
      then have "fexp x + 1 \<le> flog z" by simp
      then have "(2::real) powi (fexp x + 1) \<le> 2 powi (flog z)"
        by (intro power_int_increasing) auto
      with flog_bounds(1) [of z] zpos zlt show False by simp
    qed
    have ez: "fexp z = fexp x"
    proof (cases "fexp x = flog x")
      case True
      then have "2 powi (fexp x) \<le> fl x" using assms by (intro fl_lower)
      then have "2 powi (fexp x) \<le> \<bar>z\<bar>" using zpos by (simp add: z)
      moreover have "\<bar>z\<bar> < 2 powi (fexp x + 1)" using zpos zlt by simp
      ultimately have "flog z = fexp x" by (rule flog_unique)
      moreover have "- 126 \<le> fexp x" by (simp add: fexp_def)
      ultimately show ?thesis by (simp add: fexp_def)
    next
      case False
      then have "fexp x = - 126" by (simp add: fexp_def max_def split: if_splits)
      with fz show ?thesis by (simp add: fexp_def)
    qed
    then have "ulp z = u" by (simp add: ulp_def u_def)
    then have "z / ulp z = real_of_int m" using u0 by (simp add: z_def)
    then show ?thesis by (rule fl_fix)
  qed
  then show ?thesis by (simp add: z)
qed

lemma fl_idem [simp]: "fl (fl x) = fl x"
proof -
  consider "0 < x" | "x = 0" | "x < 0" by linarith
  then show ?thesis
  proof cases
    case 1
    then show ?thesis by (rule fl_idem_pos)
  next
    case 2
    then show ?thesis by simp
  next
    case 3
    then have "fl (fl (- x)) = fl (- x)" by (intro fl_idem_pos) simp
    then show ?thesis by (simp add: fl_neg)
  qed
qed

lemma fl_le: "x \<le> c \<Longrightarrow> fl c = c \<Longrightarrow> fl x \<le> c"
  using fl_mono [of x c] by simp

lemma fl_ge: "c \<le> x \<Longrightarrow> fl c = c \<Longrightarrow> c \<le> fl x"
  using fl_mono [of c x] by simp

lemmas fl_eval = fl_def ulp_def fexp_def flog_def round_even_def compute_bitlen

lemmas fops = fadd_def fsub_def fmul_def fdiv_def

lemma fl_consts:
  "fl 1 = 1" "fl 2 = 2" "fl 10 = 10" "fl 40 = 40" "fl 70 = 70" "fl 110 = 110"
  "fl 560 = 560" "fl 600 = 600" "fl 1023 = 1023" "fl (1 / 2) = 1 / 2"
  "fl (16777215 / 16777216) = 16777215 / 16777216"
  by (simp_all add: fl_eval)

text \<open>
  \<open>fl x\<close> is a multiple of \<open>ulp x\<close> by its definition; it is within half
  of it from \<open>x\<close>.
\<close>

lemma round_even_error: "\<bar>real_of_int (round_even y) - y\<bar> \<le> 1 / 2"
  unfolding round_even_def Let_def by (auto simp add: abs_le_iff)

lemma fl_error: "\<bar>fl x - x\<bar> \<le> ulp x / 2"
proof -
  have u: "0 < ulp x" by simp
  have u0: "ulp x \<noteq> 0" using ulp_pos [of x] by linarith
  have "fl x - x = (real_of_int (round_even (x / ulp x)) - x / ulp x) * ulp x"
    using u0 by (simp add: fl_def algebra_simps)
  moreover have "\<bar>ulp x\<bar> = ulp x" using ulp_pos [of x] by linarith
  ultimately have "\<bar>fl x - x\<bar> = \<bar>real_of_int (round_even (x / ulp x)) - x / ulp x\<bar> * ulp x"
    by (simp add: abs_mult)
  also have "\<dots> \<le> 1 / 2 * ulp x"
  proof (rule mult_right_mono)
    show "\<bar>real_of_int (round_even (x / ulp x)) - x / ulp x\<bar> \<le> 1 / 2"
      by (rule round_even_error)
    show "0 \<le> ulp x" using ulp_pos [of x] by linarith
  qed
  finally show ?thesis by simp
qed

text \<open>
  Some values: the single-precision numbers next to 0.1 and 0.85, two ties between
  neighbours above \<open>2^24\<close>, which go to the even significand, and two values in
  the subnormal range.
\<close>

lemma fl_examples:
  "fl 0.1 = 13421773 / 134217728"
  "fl 0.85 = 14260634 / 16777216"
  "fl (16777217 / 1) = 16777216"
  "fl (16777219 / 1) = 16777220"
  "fl (1 / 2 ^ 150) = 0"
  "fl (3 / 2 ^ 150) = 2 / 2 ^ 149"
  by (simp_all add: fl_eval)

section \<open>Properties of the regulators\<close>

lemmas pin_defs = PIN_PUMP_BASE_def PIN_VALVE_BASE_def PIN_PUMP_LEAVES_def PIN_VALVE_LEAVES_def

lemma pwm_analogWrite:
  "pwm (analogWrite pin val g) p = (if p = pin then val else pwm g p)"
  by (simp add: analogWrite_def)

lemma long_of_float_maxP: "long_of_float 110 = 110" "long_of_float 600 = 600"
  by (simp_all add: long_of_float_def trunc_def to_long_def)

lemma middle_pump:
  "pwm (setPressureMiddle d i j a g) PIN_PUMP_BASE =
     (if computedErrorMiddle d a < - 10
      then to_int16 (map_long (long_of_float (fmul (computedErrorMiddle d a) (- 1))) 0 110 50 255)
      else 0)"
  by (simp add: setPressureMiddle_def computedErrorMiddle_def pwm_analogWrite pin_defs
      long_of_float_maxP Let_def)

lemma middle_valve:
  "pwm (setPressureMiddle d i j a g) PIN_VALVE_BASE =
     (if computedErrorMiddle d a < - 10 then 0
      else if computedErrorMiddle d a > 10
      then to_int16 (map_long (long_of_float (computedErrorMiddle d a)) 0 110 230 255) else 0)"
  by (simp add: setPressureMiddle_def computedErrorMiddle_def pwm_analogWrite pin_defs
      long_of_float_maxP Let_def)

lemma leaves_pump:
  "pwm (setPressureLeaves d i j a g) PIN_PUMP_LEAVES =
     (if computedErrorLeaves d a < - 10
      then to_int16 (map_long (long_of_float (fmul (computedErrorLeaves d a) (- 1))) 0 600 100 255)
      else 0)"
  by (simp add: setPressureLeaves_def computedErrorLeaves_def pwm_analogWrite pin_defs
      long_of_float_maxP Let_def)

lemma leaves_valve:
  "pwm (setPressureLeaves d i j a g) PIN_VALVE_LEAVES =
     (if computedErrorLeaves d a < - 10 then 0
      else if computedErrorLeaves d a > 10
      then to_int16 (map_long (long_of_float (computedErrorLeaves d a)) 0 600 230 255) else 0)"
  by (simp add: setPressureLeaves_def computedErrorLeaves_def pwm_analogWrite pin_defs
      long_of_float_maxP Let_def)

text \<open>
  C1. In every call of either regulator, for every level and every sensor reading, the
  pump command or the valve command is zero: the two are never both nonzero.
\<close>

theorem regulator_exclusive:
  "(pwm (setPressureMiddle d i j a1 g) PIN_PUMP_BASE = 0 \<or>
    pwm (setPressureMiddle d i j a1 g) PIN_VALVE_BASE = 0) \<and>
   (pwm (setPressureLeaves d i j a2 g) PIN_PUMP_LEAVES = 0 \<or>
    pwm (setPressureLeaves d i j a2 g) PIN_VALVE_LEAVES = 0)"
  by (simp add: middle_pump middle_valve leaves_pump leaves_valve)

lemma to_long_id: "- 2147483648 \<le> i \<Longrightarrow> i < 2147483648 \<Longrightarrow> to_long i = i"
  by (simp add: to_long_def)

lemma to_int16_id: "- 32768 \<le> i \<Longrightarrow> i < 32768 \<Longrightarrow> to_int16 i = i"
  by (simp add: to_int16_def)

lemma c_div_nonneg: "0 \<le> a \<Longrightarrow> 0 < b \<Longrightarrow> c_div a b = a div b"
  by (cases "a = 0") (simp_all add: c_div_def)

lemma map_long_small:
  assumes "0 \<le> x" "x \<le> 1023" "100 \<le> d" "d \<le> 1000" "0 \<le> l" "l \<le> h" "h \<le> 255"
  shows "map_long x 0 d l h = x * (h - l) div d + l"
    and "l \<le> map_long x 0 d l h"
    and "map_long x 0 d l h \<le> 2608 + l"
proof -
  have b1: "0 \<le> x * (h - l)" using assms by simp
  have b2: "x * (h - l) \<le> 1023 * 255"
    using assms by (intro mult_mono) auto
  have "x * (h - l) div d \<le> x * (h - l) div 100"
    using b1 assms(3) by (intro zdiv_mono2) auto
  also have "\<dots> \<le> (1023 * 255) div 100"
    using b2 by (intro zdiv_mono1) auto
  finally have b3: "x * (h - l) div d \<le> 2608" by simp
  have b4: "0 \<le> x * (h - l) div d"
    using b1 assms(3) by (simp add: pos_imp_zdiv_nonneg_iff)
  have t1: "to_long (x * (h - l)) = x * (h - l)"
    using b1 b2 by (intro to_long_id) auto
  have t2: "c_div (x * (h - l)) d = x * (h - l) div d"
    using b1 assms(3) by (intro c_div_nonneg) auto
  have t3: "to_long (x * (h - l) div d) = x * (h - l) div d"
    using b3 b4 by (intro to_long_id) auto
  have t4: "to_long (x * (h - l) div d + l) = x * (h - l) div d + l"
    using b3 b4 assms(5,6,7) by (intro to_long_id) auto
  have t5: "to_long x = x" "to_long (h - l) = h - l" "to_long d = d"
    using assms by (auto intro!: to_long_id)
  show eq: "map_long x 0 d l h = x * (h - l) div d + l"
    by (simp add: map_long_def Let_def t1 t2 t3 t4 t5)
  show "l \<le> map_long x 0 d l h" using b4 by (simp add: eq)
  show "map_long x 0 d l h \<le> 2608 + l" using b3 by (simp add: eq)
qed

lemma trunc_nonneg: "0 \<le> r \<Longrightarrow> trunc r = \<lfloor>r\<rfloor>"
  by (simp add: trunc_def)

lemma cmd_positive:
  assumes "10 < e" "e \<le> 1023" "100 \<le> d" "d \<le> 1000" "0 < l" "l \<le> h" "h \<le> 255"
  shows "0 < to_int16 (map_long (long_of_float e) 0 d l h)"
proof -
  have f: "0 \<le> \<lfloor>e\<rfloor>" "\<lfloor>e\<rfloor> \<le> 1023" using assms(1,2) by (simp_all add: floor_le_iff le_floor_iff)
  have x: "long_of_float e = \<lfloor>e\<rfloor>"
    using assms(1) f by (simp add: long_of_float_def trunc_nonneg to_long_id)
  have l0: "0 \<le> l" using assms(5) by simp
  note m = map_long_small [OF f assms(3,4) l0 assms(6,7)]
  have "to_int16 (map_long \<lfloor>e\<rfloor> 0 d l h) = map_long \<lfloor>e\<rfloor> 0 d l h"
    using m(2,3) assms by (intro to_int16_id) auto
  then show ?thesis using m(2) assms(5) by (simp add: x)
qed

lemma fl_between:
  assumes "a \<le> x" "x \<le> b" "fl a = a" "fl b = b"
  shows "a \<le> fl x" "fl x \<le> b"
  using fl_ge [OF assms(1,3)] fl_le [OF assms(2,4)] by simp_all

lemma fl_int_real: "\<bar>n\<bar> < 16777216 \<Longrightarrow> fl (real_of_int n) = real_of_int n"
  by (rule fl_int)

text \<open>
  The computed error follows the exact one across the deadband: the readings, the bounds
  of the deadband and the offsets are integers, which rounding leaves alone, and rounding
  is monotone.
\<close>

lemma computed_error_deadband:
  fixes w :: int
  assumes a: "- 32768 \<le> a" "a \<le> 32767"
    and w: "fl (real_of_int w) = real_of_int w"
    and ex: "\<bar>real_of_int a - (real_of_int w * d + 40)\<bar> \<le> 10"
  shows "\<bar>fsub (fl (real_of_int a)) (fadd (fmul (real_of_int w) d) 40)\<bar> \<le> 10"
proof -
  define t1 where "t1 = fmul (real_of_int w) d"
  define t2 where "t2 = fadd t1 40"
  have fa: "fl (real_of_int a) = real_of_int a"
    using a by (intro fl_int) auto
  have f50: "fl (real_of_int (a - 50)) = real_of_int (a - 50)"
    using a by (intro fl_int) auto
  have f30: "fl (real_of_int (a - 30)) = real_of_int (a - 30)"
    using a by (intro fl_int) auto
  have f10m: "fl (real_of_int (a - 10)) = real_of_int (a - 10)"
    using a by (intro fl_int) auto
  have f10p: "fl (real_of_int (a + 10)) = real_of_int (a + 10)"
    using a by (intro fl_int) auto
  have "real_of_int (a - 50) \<le> real_of_int w * d" "real_of_int w * d \<le> real_of_int (a - 30)"
    using ex by (simp_all add: abs_le_iff)
  from fl_between [OF this f50 f30]
  have t1: "real_of_int (a - 50) \<le> t1" "t1 \<le> real_of_int (a - 30)"
    by (simp_all add: t1_def fmul_def)
  then have "real_of_int (a - 10) \<le> t1 + 40" "t1 + 40 \<le> real_of_int (a + 10)"
    by simp_all
  from fl_between [OF this f10m f10p]
  have t2: "real_of_int (a - 10) \<le> t2" "t2 \<le> real_of_int (a + 10)"
    by (simp_all add: t2_def fadd_def)
  then have "- 10 \<le> real_of_int a - t2" "real_of_int a - t2 \<le> 10"
    by simp_all
  moreover have "fl (- 10) = - 10" "fl 10 = 10"
    by (simp_all add: fl_neg fl_consts)
  ultimately have "- 10 \<le> fl (real_of_int a - t2)" "fl (real_of_int a - t2) \<le> 10"
    by (auto intro: fl_between)
  then show ?thesis
    by (simp add: fsub_def fa t2_def t1_def abs_le_iff)
qed

lemma fsub_maxP_minP: "fsub 110 40 = 70" "fsub 600 40 = 560"
  by (simp_all add: fsub_def fl_consts)

lemma exact_deadband_middle:
  assumes "- 32768 \<le> a" "a \<le> 32767" "\<bar>errorMiddle d a\<bar> \<le> 10"
  shows "\<bar>computedErrorMiddle d a\<bar> \<le> 10"
proof -
  have "fl (real_of_int 70) = real_of_int 70" by (simp add: fl_consts)
  moreover have "\<bar>real_of_int a - (real_of_int 70 * d + 40)\<bar> \<le> 10"
    using assms(3) by (simp add: errorMiddle_def)
  ultimately have "\<bar>fsub (fl (real_of_int a)) (fadd (fmul (real_of_int 70) d) 40)\<bar> \<le> 10"
    by (rule computed_error_deadband [OF assms(1,2)])
  then show ?thesis by (simp add: computedErrorMiddle_def fsub_maxP_minP)
qed

lemma exact_deadband_leaves:
  assumes "- 32768 \<le> a" "a \<le> 32767" "\<bar>errorLeaves d a\<bar> \<le> 10"
  shows "\<bar>computedErrorLeaves d a\<bar> \<le> 10"
proof -
  have "fl (real_of_int 560) = real_of_int 560" by (simp add: fl_consts)
  moreover have "\<bar>real_of_int a - (real_of_int 560 * d + 40)\<bar> \<le> 10"
    using assms(3) by (simp add: errorLeaves_def)
  ultimately have "\<bar>fsub (fl (real_of_int a)) (fadd (fmul (real_of_int 560) d) 40)\<bar> \<le> 10"
    by (rule computed_error_deadband [OF assms(1,2)])
  then show ?thesis by (simp add: computedErrorLeaves_def fsub_maxP_minP)
qed

text \<open>
  C3. Whenever the error, the sensor reading minus the target pressure
  \<open>minP + (maxP - minP) * level\<close>, has absolute value at most 10, either regulator
  commands both its pump and its valve to exactly 0. This holds for the error as the
  source computes it in single precision, for every level and reading, and for the exact
  error, for every level and every reading that fits the 16 bits of an \<open>int\<close>.
\<close>

theorem regulator_deadband:
  "(\<bar>computedErrorMiddle d a1\<bar> \<le> 10 \<or>
    (- 32768 \<le> a1 \<and> a1 \<le> 32767 \<and> \<bar>errorMiddle d a1\<bar> \<le> 10) \<longrightarrow>
      pwm (setPressureMiddle d i j a1 g) PIN_PUMP_BASE = 0 \<and>
      pwm (setPressureMiddle d i j a1 g) PIN_VALVE_BASE = 0) \<and>
   (\<bar>computedErrorLeaves d a2\<bar> \<le> 10 \<or>
    (- 32768 \<le> a2 \<and> a2 \<le> 32767 \<and> \<bar>errorLeaves d a2\<bar> \<le> 10) \<longrightarrow>
      pwm (setPressureLeaves d i j a2 g) PIN_PUMP_LEAVES = 0 \<and>
      pwm (setPressureLeaves d i j a2 g) PIN_VALVE_LEAVES = 0)"
proof -
  have m: "\<bar>computedErrorMiddle d a1\<bar> \<le> 10"
    if "\<bar>computedErrorMiddle d a1\<bar> \<le> 10 \<or>
        (- 32768 \<le> a1 \<and> a1 \<le> 32767 \<and> \<bar>errorMiddle d a1\<bar> \<le> 10)"
    using that exact_deadband_middle [of a1 d] by blast
  have l: "\<bar>computedErrorLeaves d a2\<bar> \<le> 10"
    if "\<bar>computedErrorLeaves d a2\<bar> \<le> 10 \<or>
        (- 32768 \<le> a2 \<and> a2 \<le> 32767 \<and> \<bar>errorLeaves d a2\<bar> \<le> 10)"
    using that exact_deadband_leaves [of a2 d] by blast
  show ?thesis
    using m l by (auto simp add: middle_pump middle_valve leaves_pump leaves_valve)
qed

theorem regulator_deadband_witness:
  "\<bar>computedErrorMiddle 0 45\<bar> \<le> 10 \<and> \<bar>errorMiddle 0 45\<bar> \<le> 10 \<and>
   \<bar>computedErrorLeaves 0 35\<bar> \<le> 10 \<and> \<bar>errorLeaves 0 35\<bar> \<le> 10 \<and>
   (- 32768 :: int) \<le> 45 \<and> (45 :: int) \<le> 32767 \<and>
   (- 32768 :: int) \<le> 35 \<and> (35 :: int) \<le> 32767 \<and>
   pwm (setPressureMiddle 0 0 1 45 g_init) PIN_PUMP_BASE = 0 \<and>
   pwm (setPressureMiddle 0 0 1 45 g_init) PIN_VALVE_BASE = 0 \<and>
   pwm (setPressureLeaves 0 0 1 35 g_init) PIN_PUMP_LEAVES = 0 \<and>
   pwm (setPressureLeaves 0 0 1 35 g_init) PIN_VALVE_LEAVES = 0"
  using regulator_deadband [of 0 45 0 1 g_init 35]
  by (simp add: errorMiddle_def errorLeaves_def computedErrorMiddle_def
      computedErrorLeaves_def fops fl_eval)


lemma computedErrorMiddle_range:
  assumes "0 \<le> d" "d \<le> 1" "0 \<le> a" "a \<le> 1023"
  shows "- 110 \<le> computedErrorMiddle d a" "computedErrorMiddle d a \<le> 1023"
proof -
  define t1 where "t1 = fmul 70 d"
  define t2 where "t2 = fadd t1 40"
  have fa: "fl (real_of_int a) = real_of_int a"
    using assms(3,4) by (intro fl_int) auto
  have "0 \<le> 70 * d" "70 * d \<le> 70" using assms(1,2) by simp_all
  from fl_between [OF this]
  have "0 \<le> t1" "t1 \<le> 70" by (simp_all add: t1_def fmul_def fl_consts)
  then have "40 \<le> t1 + 40" "t1 + 40 \<le> 110" by simp_all
  from fl_between [OF this]
  have "40 \<le> t2" "t2 \<le> 110" by (simp_all add: t2_def fadd_def fl_consts)
  then have "- 110 \<le> real_of_int a - t2" "real_of_int a - t2 \<le> 1023"
    using assms(3,4) by simp_all
  moreover have "fl (- 110) = - 110" "fl 1023 = 1023"
    by (simp_all add: fl_neg fl_consts)
  ultimately have "- 110 \<le> fl (real_of_int a - t2)" "fl (real_of_int a - t2) \<le> 1023"
    by (auto intro: fl_between)
  then show "- 110 \<le> computedErrorMiddle d a" "computedErrorMiddle d a \<le> 1023"
    by (simp_all add: computedErrorMiddle_def fsub_def fl_consts fa t2_def t1_def)
qed

lemma computedErrorLeaves_range:
  assumes "0 \<le> d" "d \<le> 1" "0 \<le> a" "a \<le> 1023"
  shows "- 600 \<le> computedErrorLeaves d a" "computedErrorLeaves d a \<le> 1023"
proof -
  define t1 where "t1 = fmul 560 d"
  define t2 where "t2 = fadd t1 40"
  have fa: "fl (real_of_int a) = real_of_int a"
    using assms(3,4) by (intro fl_int) auto
  have "0 \<le> 560 * d" "560 * d \<le> 560" using assms(1,2) by simp_all
  from fl_between [OF this]
  have "0 \<le> t1" "t1 \<le> 560" by (simp_all add: t1_def fmul_def fl_consts)
  then have "40 \<le> t1 + 40" "t1 + 40 \<le> 600" by simp_all
  from fl_between [OF this]
  have "40 \<le> t2" "t2 \<le> 600" by (simp_all add: t2_def fadd_def fl_consts)
  then have "- 600 \<le> real_of_int a - t2" "real_of_int a - t2 \<le> 1023"
    using assms(3,4) by simp_all
  moreover have "fl (- 600) = - 600" "fl 1023 = 1023"
    by (simp_all add: fl_neg fl_consts)
  ultimately have "- 600 \<le> fl (real_of_int a - t2)" "fl (real_of_int a - t2) \<le> 1023"
    by (auto intro: fl_between)
  then show "- 600 \<le> computedErrorLeaves d a" "computedErrorLeaves d a \<le> 1023"
    by (simp_all add: computedErrorLeaves_def fsub_def fl_consts fa t2_def t1_def)
qed

text \<open>The source negates the error by a multiplication, which is exact.\<close>

lemma fmul_minus_one:
  "fmul (computedErrorMiddle d a) (- 1) = - computedErrorMiddle d a"
  "fmul (computedErrorLeaves d a) (- 1) = - computedErrorLeaves d a"
  by (simp_all add: computedErrorMiddle_def computedErrorLeaves_def fmul_def fsub_def fl_neg)

text \<open>
  C10. For a level in [0,1] and a sensor reading in [0,1023] (the regulator's contract
  and the range of the converter), and with the error as the source computes it in
  single precision: an error below -10 gives a strictly positive pump command and valve
  command 0, an error above 10 gives a strictly positive valve command and pump command
  0; so exactly one actuator is driven, and both commands are zero only when the error
  is within the deadband.
\<close>

theorem regulator_acts_outside_deadband:
  assumes "0 \<le> d" "d \<le> 1" "0 \<le> a1" "a1 \<le> 1023" "0 \<le> a2" "a2 \<le> 1023"
  shows "(computedErrorMiddle d a1 < - 10 \<longrightarrow>
            0 < pwm (setPressureMiddle d i j a1 g) PIN_PUMP_BASE \<and>
            pwm (setPressureMiddle d i j a1 g) PIN_VALVE_BASE = 0) \<and>
         (10 < computedErrorMiddle d a1 \<longrightarrow>
            0 < pwm (setPressureMiddle d i j a1 g) PIN_VALVE_BASE \<and>
            pwm (setPressureMiddle d i j a1 g) PIN_PUMP_BASE = 0) \<and>
         (computedErrorLeaves d a2 < - 10 \<longrightarrow>
            0 < pwm (setPressureLeaves d i j a2 g) PIN_PUMP_LEAVES \<and>
            pwm (setPressureLeaves d i j a2 g) PIN_VALVE_LEAVES = 0) \<and>
         (10 < computedErrorLeaves d a2 \<longrightarrow>
            0 < pwm (setPressureLeaves d i j a2 g) PIN_VALVE_LEAVES \<and>
            pwm (setPressureLeaves d i j a2 g) PIN_PUMP_LEAVES = 0) \<and>
         (pwm (setPressureMiddle d i j a1 g) PIN_PUMP_BASE = 0 \<and>
          pwm (setPressureMiddle d i j a1 g) PIN_VALVE_BASE = 0
            \<longleftrightarrow> \<bar>computedErrorMiddle d a1\<bar> \<le> 10) \<and>
         (pwm (setPressureLeaves d i j a2 g) PIN_PUMP_LEAVES = 0 \<and>
          pwm (setPressureLeaves d i j a2 g) PIN_VALVE_LEAVES = 0
            \<longleftrightarrow> \<bar>computedErrorLeaves d a2\<bar> \<le> 10)"
proof -
  note rm = computedErrorMiddle_range [OF assms(1,2,3,4)]
  note rl = computedErrorLeaves_range [OF assms(1,2,5,6)]
  have mp: "0 < to_int16 (map_long (long_of_float (- computedErrorMiddle d a1)) 0 110 50 255)"
    if "computedErrorMiddle d a1 < - 10"
    using that rm by (intro cmd_positive) auto
  have mv: "0 < to_int16 (map_long (long_of_float (computedErrorMiddle d a1)) 0 110 230 255)"
    if "10 < computedErrorMiddle d a1"
    using that rm by (intro cmd_positive) auto
  have lp: "0 < to_int16 (map_long (long_of_float (- computedErrorLeaves d a2)) 0 600 100 255)"
    if "computedErrorLeaves d a2 < - 10"
    using that rl by (intro cmd_positive) auto
  have lv: "0 < to_int16 (map_long (long_of_float (computedErrorLeaves d a2)) 0 600 230 255)"
    if "10 < computedErrorLeaves d a2"
    using that rl by (intro cmd_positive) auto
  show ?thesis
    using mp mv lp lv
    by (auto simp add: middle_pump middle_valve leaves_pump leaves_valve fmul_minus_one)
qed

lemmas reg_eval = computedErrorMiddle_def computedErrorLeaves_def fops fl_eval
  long_of_float_def trunc_def to_long_def map_long_def c_div_def to_int16_def

theorem regulator_acts_outside_deadband_witness:
  "(0::real) \<le> 1 \<and> (0::int) \<le> 0 \<and> (0::int) \<le> 1023 \<and>
   computedErrorMiddle 1 0 < - 10 \<and> 10 < computedErrorLeaves 1 1023 \<and>
   10 < computedErrorMiddle 0 1023 \<and> computedErrorLeaves 0 0 < - 10 \<and>
   pwm (setPressureMiddle 1 0 1 0 g_init) PIN_PUMP_BASE = 255 \<and>
   pwm (setPressureMiddle 1 0 1 0 g_init) PIN_VALVE_BASE = 0 \<and>
   pwm (setPressureLeaves 1 0 1 1023 g_init) PIN_VALVE_LEAVES = 247 \<and>
   pwm (setPressureLeaves 1 0 1 1023 g_init) PIN_PUMP_LEAVES = 0 \<and>
   0 < pwm (setPressureMiddle 0 0 1 1023 g_init) PIN_VALVE_BASE \<and>
   pwm (setPressureMiddle 0 0 1 1023 g_init) PIN_PUMP_BASE = 0 \<and>
   pwm (setPressureLeaves 0 0 1 0 g_init) PIN_PUMP_LEAVES = 110 \<and>
   pwm (setPressureLeaves 0 0 1 0 g_init) PIN_VALVE_LEAVES = 0"
  using regulator_acts_outside_deadband [of 1 0 1023 0 1 g_init]
    regulator_acts_outside_deadband [of 0 1023 0 0 1 g_init]
  by (simp add: middle_pump leaves_valve leaves_pump reg_eval)

text \<open>
  C4. With level 0 and sensor reading 1023, both inside the claimed domain, the valve
  command of the base channel is 453 and that of the leaves channel is 270: \<open>map\<close>
  does not confine its result to the output range 230..255 when the error exceeds
  \<open>maxP\<close>, and the sketch does not clamp it.
\<close>

theorem valve_command_exceeds_255:
  "pwm (setPressureMiddle 0 0 1 1023 g) PIN_VALVE_BASE = 453 \<and>
   pwm (setPressureLeaves 0 0 1 1023 g) PIN_VALVE_LEAVES = 270"
  by (simp add: middle_valve leaves_valve reg_eval)

text \<open>
  At the edge of the deadband the rounding decides: with level \<open>0.1f\<close> and reading
  37 the target pressure rounds to 47, the computed error is exactly -10 and the
  regulator holds, although the exact error is below -10.
\<close>

lemma deadband_edge_rounding:
  "computedErrorMiddle (fl 0.1) 37 = - 10 \<and> errorMiddle (fl 0.1) 37 < - 10 \<and>
   pwm (setPressureMiddle (fl 0.1) 0 1 37 g) PIN_PUMP_BASE = 0"
  by (simp add: middle_pump errorMiddle_def reg_eval)

section \<open>Properties of the samplers\<close>

text \<open>The accumulator of the loop before it adds entry \<open>n\<close>.\<close>

lemma rouletteLoop_find:
  "n \<le> 5 \<Longrightarrow> acc = (case n of 0 \<Rightarrow> 0 | Suc k \<Rightarrow> cumulative row k) \<Longrightarrow>
   rouletteLoop row r acc n =
     (case find (\<lambda>k. r \<le> cumulative row k) [n..<5] of Some k \<Rightarrow> k | None \<Rightarrow> 4)"
proof (induction row r acc n rule: rouletteLoop.induct)
  case (1 row r acc n)
  show ?case
  proof (cases "n < 5")
    case False
    with "1.prems" have "n = 5" by simp
    then show ?thesis by (subst rouletteLoop.simps) simp
  next
    case True
    then have upt: "[n..<5] = n # [Suc n..<5]" by (simp add: upt_conv_Cons)
    have cum: "cumulative row n = fadd acc (row n)"
      using "1.prems"(2) by (cases n) simp_all
    show ?thesis
    proof (cases "r \<le> fadd acc (row n)")
      case le: True
      show ?thesis
        using True le by (subst rouletteLoop.simps) (simp add: upt cum)
    next
      case nle: False
      have ih: "rouletteLoop row r (fadd acc (row n)) (n + 1) =
         (case find (\<lambda>k. r \<le> cumulative row k) [n + 1..<5] of Some k \<Rightarrow> k | None \<Rightarrow> 4)"
        using True nle "1.prems"
        by (intro "1.IH" [OF True refl]) (auto simp add: cum)
      show ?thesis
        using True nle ih by (subst rouletteLoop.simps) (simp add: upt cum)
    qed
  qed
qed

lemma frand_unit:
  assumes "0 \<le> rnd" "rnd < 10000"
  shows "0 \<le> frand 0 1 rnd \<and> frand 0 1 rnd < 1"
proof -
  define q where "q = fdiv (fl (real_of_int rnd)) 10000"
  define c :: real where "c = 16777215 / 16777216"
  have c: "fl c = c" "c < 1" by (simp_all add: c_def fl_consts)
  have fr: "fl (real_of_int rnd) = real_of_int rnd"
    using assms by (intro fl_int) auto
  have "0 \<le> real_of_int rnd / 10000" using assms(1) by simp
  moreover have "real_of_int rnd / 10000 \<le> c"
    using assms(2) by (simp add: c_def)
  ultimately have q: "0 \<le> q" "q \<le> c"
    using c(1) by (auto simp add: q_def fdiv_def fr intro: fl_ge fl_le)
  have fq: "fl q = q" by (simp add: q_def fdiv_def)
  have "frand 0 1 rnd = q"
    by (simp add: frand_def fops fl_consts q_def [symmetric, unfolded fdiv_def] fq)
  then show ?thesis using q c(2) by simp
qed

text \<open>
  C5. The sampler draws \<open>r = frand(0, 1)\<close>, which lies in [0,1), and returns what
  roulette-wheel selection prescribes for the row of the current state: the first state,
  from left to right, whose cumulative sum, as the loop accumulates it in single
  precision, is at least \<open>r\<close>, and the last state of the row (SAD) when no cumulative
  sum reaches \<open>r\<close>. This holds for the matrix of the sketch and for every other
  matrix, also with rows that sum to less than 1, whose entries have magnitude at most
  \<open>2^125\<close>, so that no partial sum leaves the range of single precision; the loop
  is a total function, so it always returns, and what it returns is one of the five
  states.
\<close>

theorem sampleNextState_roulette:
  "((\<forall>n<5. \<bar>Pm s n\<bar> \<le> 2 ^ 125) \<longrightarrow>
      sampleNextStateP Pm s rnd = roulette_spec (Pm s) (frand 0 1 rnd)) \<and>
   sampleNextState s rnd = roulette_spec (P s) (frand 0 1 rnd) \<and>
   (0 \<le> rnd \<and> rnd < 10000 \<longrightarrow> 0 \<le> frand 0 1 rnd \<and> frand 0 1 rnd < 1)"
proof -
  have loop: "rouletteLoop row r 0 0 =
      (case find (\<lambda>k. r \<le> cumulative row k) [0..<5] of Some k \<Rightarrow> k | None \<Rightarrow> 4)" for row r
    by (rule rouletteLoop_find) simp_all
  have "sampleNextStateP M s rnd = roulette_spec (M s) (frand 0 1 rnd)" for M
    by (simp add: sampleNextStateP_def roulette_spec_def loop State_of_def
        split: option.split)
  then show ?thesis
    by (simp add: sampleNextState_def frand_unit)
qed

lemma cumulative_unfold:
  "cumulative row 1 = fadd (cumulative row 0) (row 1)"
  "cumulative row 2 = fadd (cumulative row 1) (row 2)"
  "cumulative row 3 = fadd (cumulative row 2) (row 3)"
  "cumulative row 4 = fadd (cumulative row 3) (row 4)"
  by (simp_all add: eval_nat_numeral)

theorem sampleNextState_roulette_witness:
  "(0::int) \<le> 8500 \<and> (8500::int) < 10000 \<and>
   \<bar>1 / 4 :: real\<bar> \<le> 2 ^ 125 \<and> \<bar>1 / 8 :: real\<bar> \<le> 2 ^ 125 \<and>
   0 \<le> frand 0 1 8500 \<and> frand 0 1 8500 < 1 \<and>
   sampleNextState CALM 8500 = SAD \<and>
   sampleNextStateP (\<lambda>s n. 1 / 4) CALM 8500 = ANGRY \<and>
   sampleNextStateP (\<lambda>s n. 1 / 8) CALM 8500 = SAD"
  using sampleNextState_roulette [of "\<lambda>s n. 1 / 4" CALM 8500]
    sampleNextState_roulette [of "\<lambda>s n. 1 / 8" CALM 8500]
  by (simp add: roulette_spec_def cumulative_unfold frand_def State_of_def upt_conv_Cons
      fops fl_eval)

lemma DWELL_ordered: "0 < lo (DWELL s) \<and> lo (DWELL s) \<le> hi (DWELL s)"
  by (cases s) simp_all

lemma DWELL_representable:
  "fl (lo (DWELL s)) = lo (DWELL s) \<and> fl (hi (DWELL s)) = hi (DWELL s) \<and>
   fl (hi (DWELL s) - lo (DWELL s)) = hi (DWELL s) - lo (DWELL s)"
  by (cases s) (simp_all add: fl_eval)

text \<open>
  Between two representable bounds whose difference is representable, \<open>frand\<close>
  stays within the bounds.
\<close>

lemma frand_between:
  assumes "a \<le> b" "0 \<le> rnd" "rnd < 10000"
    and rep: "fl a = a" "fl b = b" "fl (b - a) = b - a"
  shows "a \<le> frand a b rnd" "frand a b rnd \<le> b"
proof -
  define q where "q = fdiv (fl (real_of_int rnd)) 10000"
  define p where "p = fmul (fsub b a) q"
  have fr: "fl (real_of_int rnd) = real_of_int rnd"
    using assms(2,3) by (intro fl_int) auto
  have "0 \<le> real_of_int rnd / 10000" "real_of_int rnd / 10000 \<le> 1"
    using assms(2,3) by simp_all
  from fl_between [OF this]
  have q: "0 \<le> q" "q \<le> 1" by (simp_all add: q_def fdiv_def fr fl_consts)
  have w: "fsub b a = b - a" by (simp add: fsub_def rep)
  have "0 \<le> (b - a) * q" using assms(1) q(1) by simp
  moreover have "(b - a) * q \<le> (b - a) * 1"
    using assms(1) q(2) by (intro mult_left_mono) auto
  ultimately have "0 \<le> (b - a) * q" "(b - a) * q \<le> b - a" by simp_all
  from fl_between [OF this]
  have p: "0 \<le> p" "p \<le> b - a" by (simp_all add: p_def fmul_def w rep)
  then have "a \<le> a + p" "a + p \<le> b" by simp_all
  from fl_between [OF this rep(1,2)]
  show "a \<le> frand a b rnd" "frand a b rnd \<le> b"
    by (simp_all add: frand_def fadd_def p_def q_def)
qed

lemma unat_ulong_of_float:
  assumes "0 \<le> x" "x < 2 ^ 32"
  shows "int (unat (ulong_of_float x)) = \<lfloor>x\<rfloor>"
proof -
  have f: "0 \<le> \<lfloor>x\<rfloor>" "\<lfloor>x\<rfloor> < 2 ^ 32"
    using assms by (simp_all add: floor_less_iff)
  have "uint (word_of_int \<lfloor>x\<rfloor> :: 32 word) = \<lfloor>x\<rfloor>"
    using f by (simp add: uint_word_of_int)
  then show ?thesis
    using assms(1) by (simp add: ulong_of_float_def trunc_def)
qed

text \<open>
  C6, as amended. For every state, every speed factor above 0 and every draw from 0 to
  9999, the sampled duration in seconds, \<open>frand(lo, hi) / SPEED_FACTOR\<close>, lies
  between \<open>lo / SPEED_FACTOR\<close> and \<open>hi / SPEED_FACTOR\<close>, both divisions rounded
  to single precision as the source's division is. The value returned is that duration
  times 1000, rounded to single precision and then truncated to a whole number of
  milliseconds: when the upper bound times 1000 fits in 32 bits, the result is greater
  than the lower bound times 1000 minus 1 and at most the upper bound times 1000, the
  products in single precision. For ANGRY with speed factor 2 it lies between 5000 and
  6500 milliseconds.
\<close>

theorem sampleDwellMillis_range:
  assumes "0 < SPEED_FACTOR g" "0 \<le> rnd" "rnd < 10000"
  shows "fdiv (lo (DWELL s)) (SPEED_FACTOR g)
           \<le> fdiv (frand (lo (DWELL s)) (hi (DWELL s)) rnd) (SPEED_FACTOR g) \<and>
         fdiv (frand (lo (DWELL s)) (hi (DWELL s)) rnd) (SPEED_FACTOR g)
           \<le> fdiv (hi (DWELL s)) (SPEED_FACTOR g) \<and>
         (fmul (fdiv (hi (DWELL s)) (SPEED_FACTOR g)) 1000 < 2 ^ 32 \<longrightarrow>
            fmul (fdiv (lo (DWELL s)) (SPEED_FACTOR g)) 1000 - 1
              < real (unat (sampleDwellMillis g s rnd)) \<and>
            real (unat (sampleDwellMillis g s rnd))
              \<le> fmul (fdiv (hi (DWELL s)) (SPEED_FACTOR g)) 1000) \<and>
         (s = ANGRY \<and> SPEED_FACTOR g = 2 \<longrightarrow>
            5000 \<le> unat (sampleDwellMillis g s rnd) \<and> unat (sampleDwellMillis g s rnd) \<le> 6500)"
proof -
  define sf where "sf = SPEED_FACTOR g"
  define secs where "secs = fdiv (frand (lo (DWELL s)) (hi (DWELL s)) rnd) sf"
  define ms where "ms = fmul secs 1000"
  define lb where "lb = fmul (fdiv (lo (DWELL s)) sf) 1000"
  define ub where "ub = fmul (fdiv (hi (DWELL s)) sf) 1000"
  have sf: "0 < sf" using assms(1) by (simp add: sf_def)
  note d = DWELL_ordered [of s]
  note r = DWELL_representable [of s]
  have fr: "lo (DWELL s) \<le> frand (lo (DWELL s)) (hi (DWELL s)) rnd"
      "frand (lo (DWELL s)) (hi (DWELL s)) rnd \<le> hi (DWELL s)"
    using frand_between [of "lo (DWELL s)" "hi (DWELL s)" rnd] d r assms(2,3) by simp_all
  have lower: "fdiv (lo (DWELL s)) sf \<le> secs"
    unfolding secs_def fdiv_def using fr(1) sf
    by (intro fl_mono divide_right_mono) auto
  have upper: "secs \<le> fdiv (hi (DWELL s)) sf"
    unfolding secs_def fdiv_def using fr(2) sf
    by (intro fl_mono divide_right_mono) auto
  have "0 \<le> lo (DWELL s) / sf" using d sf by simp
  then have "0 \<le> fdiv (lo (DWELL s)) sf" unfolding fdiv_def by (rule fl_nonneg)
  with lower have secs0: "0 \<le> secs" by simp
  then have "0 \<le> secs * 1000" by simp
  then have ms0: "0 \<le> ms" unfolding ms_def fmul_def by (rule fl_nonneg)
  have lbms: "lb \<le> ms"
    unfolding lb_def ms_def fmul_def using lower by (intro fl_mono) simp
  have msub: "ms \<le> ub"
    unfolding ub_def ms_def fmul_def using upper by (intro fl_mono) simp
  have res: "sampleDwellMillis g s rnd = ulong_of_float ms"
    by (simp add: sampleDwellMillis_def ms_def secs_def sf_def)
  have fits: "lb - 1 < real (unat (sampleDwellMillis g s rnd)) \<and>
              real (unat (sampleDwellMillis g s rnd)) \<le> ub"
    if lt: "ms < 2 ^ 32"
  proof -
    have "int (unat (sampleDwellMillis g s rnd)) = \<lfloor>ms\<rfloor>"
      unfolding res by (rule unat_ulong_of_float [OF ms0 lt])
    then have e: "real (unat (sampleDwellMillis g s rnd)) = real_of_int \<lfloor>ms\<rfloor>"
      by (metis of_int_of_nat_eq)
    have "ms - 1 < real_of_int \<lfloor>ms\<rfloor>" by linarith
    moreover have "real_of_int \<lfloor>ms\<rfloor> \<le> ms" by simp
    ultimately show ?thesis using lbms msub e by linarith
  qed
  have gen: "lb - 1 < real (unat (sampleDwellMillis g s rnd)) \<and>
             real (unat (sampleDwellMillis g s rnd)) \<le> ub"
    if "ub < 2 ^ 32"
    using that msub by (intro fits) linarith
  have angry: "5000 \<le> unat (sampleDwellMillis g s rnd) \<and> unat (sampleDwellMillis g s rnd) \<le> 6500"
    if a: "s = ANGRY" "sf = 2"
  proof -
    have "lb = 5000" "ub = 6500"
      using a by (simp_all add: lb_def ub_def fops fl_eval)
    then have b: "5000 \<le> ms" "ms \<le> 6500" using lbms msub by simp_all
    have "(6500::real) < 2 ^ 32" by simp
    with b(2) have lt: "ms < 2 ^ 32" by (rule le_less_trans)
    have e: "int (unat (sampleDwellMillis g s rnd)) = \<lfloor>ms\<rfloor>"
      unfolding res by (rule unat_ulong_of_float [OF ms0 lt])
    have "5000 \<le> \<lfloor>ms\<rfloor>" "\<lfloor>ms\<rfloor> \<le> 6500"
      using b by (simp_all add: le_floor_iff floor_le_iff)
    then show ?thesis using e by linarith
  qed
  show ?thesis
    using lower upper gen angry by (simp add: secs_def sf_def lb_def ub_def)
qed

lemma sampleDwellMillis_unfold:
  "sampleDwellMillis g s rnd =
     ulong_of_float (fmul (fdiv (frand (lo (DWELL s)) (hi (DWELL s)) rnd) (SPEED_FACTOR g)) 1000)"
  by (simp add: sampleDwellMillis_def)

lemmas dwell_eval = sampleDwellMillis_unfold frand_def ulong_of_float_def trunc_def fops fl_eval

theorem sampleDwellMillis_range_witness:
  "0 < SPEED_FACTOR (g_init\<lparr>SPEED_FACTOR := 2\<rparr>) \<and> (0::int) \<le> 9999 \<and> (9999::int) < 10000 \<and>
   SPEED_FACTOR (g_init\<lparr>SPEED_FACTOR := 2\<rparr>) = 2 \<and>
   fmul (fdiv (hi (DWELL ANGRY)) (SPEED_FACTOR (g_init\<lparr>SPEED_FACTOR := 2\<rparr>))) 1000 < 2 ^ 32 \<and>
   5000 \<le> unat (sampleDwellMillis (g_init\<lparr>SPEED_FACTOR := 2\<rparr>) ANGRY 9999) \<and>
   unat (sampleDwellMillis (g_init\<lparr>SPEED_FACTOR := 2\<rparr>) ANGRY 9999) \<le> 6500 \<and>
   sampleDwellMillis (g_init\<lparr>SPEED_FACTOR := 2\<rparr>) ANGRY 9999 = 6499"
  using sampleDwellMillis_range [of "g_init\<lparr>SPEED_FACTOR := 2\<rparr>" 9999 ANGRY]
  by (simp add: g_init_def dwell_eval)

text \<open>
  C6 as stated fails for the value returned: with speed factor 3, state NEUTRAL and draw
  0 the result is 1666 milliseconds, less than \<open>lo / SPEED_FACTOR = 5/3\<close> seconds.
\<close>

theorem sampleDwellMillis_below_lo:
  "sampleDwellMillis (g_init\<lparr>SPEED_FACTOR := 3\<rparr>) NEUTRAL 0 = 1666 \<and>
   real (unat (sampleDwellMillis (g_init\<lparr>SPEED_FACTOR := 3\<rparr>) NEUTRAL 0)) / 1000
     < lo (DWELL NEUTRAL) / SPEED_FACTOR (g_init\<lparr>SPEED_FACTOR := 3\<rparr>)"
  by (simp add: g_init_def dwell_eval)

text \<open>
  The two roundings of the source show in the result: with speed factor 1, state NEUTRAL
  and draw 1695 the duration 5.339 seconds becomes 5338 milliseconds.
\<close>

lemma sampleDwellMillis_rounding: "sampleDwellMillis g_init NEUTRAL 1695 = 5338"
  by (simp add: g_init_def dwell_eval)

section \<open>Properties of the waveforms\<close>

lemma word_add_periods:
  fixes t p :: "32 word"
  assumes "unat t + k * unat p < 2 ^ 32"
  shows "(t + of_nat k * p) mod p = t mod p"
proof -
  have "t + of_nat k * p = of_nat (unat t + k * unat p)"
    by simp
  then have "unat (t + of_nat k * p) = unat t + k * unat p"
    using assms by (simp only: unat_of_nat) simp
  then have "unat ((t + of_nat k * p) mod p) = unat (t mod p)"
    by (simp add: unat_mod)
  then show ?thesis
    by (rule word_unat_eq_iff [THEN iffD2])
qed

lemma clamp_fixed: "(10::32 word) \<le> p \<Longrightarrow> (if p < 10 then 10 else p) = p"
  by (simp add: not_less [symmetric])

lemma clamp_nonzero: "(if p < 10 then 10 else p) \<noteq> (0::32 word)"
  by (auto simp add: word_less_nat_alt)

text \<open>The phase, the quotient of two rounded integers, stays between 0 and 1.\<close>

lemma phase_range:
  fixes t p :: "32 word"
  assumes "p \<noteq> 0"
  shows "0 \<le> fdiv (fl (real (unat (t mod p)))) (fl (real (unat p))) \<and>
         fdiv (fl (real (unat (t mod p)))) (fl (real (unat p))) \<le> 1"
proof -
  define x where "x = fl (real (unat (t mod p)))"
  define y where "y = fl (real (unat p))"
  have p0: "0 < unat p" using assms by (simp add: unat_gt_0)
  have lt: "unat (t mod p) < unat p"
    using p0 by (simp add: unat_mod)
  have "1 \<le> unat p" using p0 by linarith
  then have "(1::real) \<le> real (unat p)" by (metis of_nat_1 of_nat_mono)
  then have y1: "1 \<le> y" unfolding y_def by (rule fl_ge) (rule fl_consts)
  have "(0::real) \<le> real (unat (t mod p))" by (rule of_nat_0_le_iff)
  then have x0: "0 \<le> x" unfolding x_def by (rule fl_nonneg)
  have "real (unat (t mod p)) \<le> real (unat p)"
    using lt by (simp only: of_nat_le_iff)
  then have xy: "x \<le> y" unfolding x_def y_def by (rule fl_mono)
  have "0 \<le> x / y" "x / y \<le> 1" using x0 xy y1 by simp_all
  from fl_between [OF this]
  have "0 \<le> fl (x / y)" "fl (x / y) \<le> 1" by (simp_all add: fl_consts)
  then show ?thesis by (simp only: fdiv_def x_def y_def)
qed

lemma affine_between:
  assumes "a \<le> b" "0 \<le> y" "y \<le> 1"
  shows "fl a \<le> fadd a (fmul (fsub b a) y)"
    and "fadd a (fmul (fsub b a) y) \<le> fadd a (fsub b a)"
proof -
  define w where "w = fsub b a"
  have "0 \<le> b - a" using assms(1) by simp
  then have w0: "0 \<le> w" unfolding w_def fsub_def by (rule fl_nonneg)
  have fw: "fl w = w" by (simp add: w_def fsub_def)
  have "0 \<le> w * y" using w0 assms(2) by simp
  moreover have "w * y \<le> w * 1" using w0 assms(3) by (intro mult_left_mono) auto
  ultimately have "0 \<le> w * y" "w * y \<le> w" by simp_all
  from fl_between [OF this fl_0 fw]
  have p: "0 \<le> fmul w y" "fmul w y \<le> w" by (simp_all add: fmul_def)
  have "fl a \<le> fl (a + fmul w y)" using p(1) by (intro fl_mono) simp
  then show "fl a \<le> fadd a (fmul (fsub b a) y)" by (simp add: fadd_def w_def)
  have "fl (a + fmul w y) \<le> fl (a + w)" using p(2) by (intro fl_mono) simp
  then show "fadd a (fmul (fsub b a) y) \<le> fadd a (fsub b a)" by (simp add: fadd_def w_def)
qed

lemma tri_shape:
  assumes "0 \<le> ph" "ph \<le> 1"
  shows "0 \<le> (if ph < 0.5 then fmul ph 2 else fsub 2 (fmul ph 2)) \<and>
         (if ph < 0.5 then fmul ph 2 else fsub 2 (fmul ph 2)) \<le> 1"
proof (cases "ph < 0.5")
  case True
  then have "0 \<le> ph * 2" "ph * 2 \<le> 1" using assms(1) by simp_all
  from fl_between [OF this]
  show ?thesis using True by (simp add: fmul_def fl_consts)
next
  case False
  then have "1 \<le> ph * 2" "ph * 2 \<le> 2" using assms(2) by simp_all
  from fl_between [OF this]
  have "1 \<le> fmul ph 2" "fmul ph 2 \<le> 2" by (simp_all add: fmul_def fl_consts)
  then have "0 \<le> 2 - fmul ph 2" "2 - fmul ph 2 \<le> 1" by simp_all
  from fl_between [OF this]
  show ?thesis using False by (simp add: fsub_def fl_consts)
qed

lemma sinf_range: "- 1 \<le> sinf x \<and> sinf x \<le> 1"
proof -
  have "fl (- 1) = - 1" "fl 1 = 1" by (simp_all add: fl_neg fl_consts)
  with fl_between [of "- 1" "sin x" 1] show ?thesis by (simp add: sinf_def)
qed

lemma sine_shape: "0 \<le> fadd 0.5 (fmul 0.5 (sinf x)) \<and> fadd 0.5 (fmul 0.5 (sinf x)) \<le> 1"
proof -
  have h: "fl (- (1 / 2)) = - (1 / 2)" "fl (1 / 2) = 1 / 2" by (simp_all add: fl_neg fl_consts)
  have "- (1 / 2) \<le> 1 / 2 * sinf x" "1 / 2 * sinf x \<le> 1 / 2"
    using sinf_range [of x] by simp_all
  from fl_between [OF this h]
  have "- (1 / 2) \<le> fmul (1 / 2) (sinf x)" "fmul (1 / 2) (sinf x) \<le> 1 / 2"
    by (simp_all add: fmul_def)
  then have "0 \<le> 1 / 2 + fmul (1 / 2) (sinf x)" "1 / 2 + fmul (1 / 2) (sinf x) \<le> 1"
    by simp_all
  from fl_between [OF this]
  show ?thesis by (simp add: fadd_def fl_consts)
qed

lemma triWave_bounds:
  assumes "minL \<le> maxL"
  shows "fl minL \<le> triWave t p minL maxL \<and>
         triWave t p minL maxL \<le> fadd minL (fsub maxL minL)"
proof -
  define q where "q = (if p < 10 then 10 else p)"
  define ph where "ph = fdiv (fl (real (unat (t mod q)))) (fl (real (unat q)))"
  define y where "y = (if ph < 0.5 then fmul ph 2 else fsub 2 (fmul ph 2))"
  have eq: "triWave t p minL maxL = fadd minL (fmul (fsub maxL minL) y)"
    by (simp only: triWave_def Let_def q_def ph_def y_def)
  have "q \<noteq> 0" unfolding q_def by (rule clamp_nonzero)
  then have "0 \<le> ph \<and> ph \<le> 1" unfolding ph_def by (rule phase_range)
  then have "0 \<le> y \<and> y \<le> 1" unfolding y_def by (intro tri_shape) auto
  then show ?thesis
    unfolding eq using affine_between [OF assms, of y] by simp
qed

lemma sineWave_bounds:
  assumes "minL \<le> maxL"
  shows "fl minL \<le> sineWave t p minL maxL \<and>
         sineWave t p minL maxL \<le> fadd minL (fsub maxL minL)"
proof -
  define q where "q = (if p < 10 then 10 else p)"
  define ph where "ph = fdiv (fl (real (unat (t mod q)))) (fl (real (unat q)))"
  define y where "y = fadd 0.5 (fmul 0.5 (sinf (fmul (fmul 2 (fl 3.14159)) ph)))"
  have eq: "sineWave t p minL maxL = fadd minL (fmul (fsub maxL minL) y)"
    by (simp only: sineWave_def Let_def q_def ph_def y_def)
  have "0 \<le> y \<and> y \<le> 1" unfolding y_def by (rule sine_shape)
  then show ?thesis
    unfolding eq using affine_between [OF assms, of y] by simp
qed

lemma squareWave_values: "squareWave t p duty = 0 \<or> squareWave t p duty = 1"
  by (simp add: squareWave_def Let_def)

lemma heartPulse_bounds:
  assumes "p \<noteq> 0"
  shows "\<exists>y. heartPulse t p = Some y \<and> 0 \<le> y \<and> y \<le> 1"
proof -
  have "0 \<le> powf \<bar>s\<bar> 3.5 \<and> powf \<bar>s\<bar> 3.5 \<le> 1" if "- 1 \<le> s \<and> s \<le> 1" for s :: real
  proof -
    have "\<bar>s\<bar> powr 3.5 \<le> 1" using that by (intro powr_le1) auto
    moreover have "0 \<le> \<bar>s\<bar> powr 3.5" by simp
    ultimately show ?thesis
      using fl_between [of 0 "\<bar>s\<bar> powr 3.5" 1] by (simp add: powf_def fl_consts)
  qed
  then show ?thesis using assms sinf_range by (simp add: heartPulse_def Let_def)
qed

text \<open>
  C7, as amended. For a period of at least 10 (at least 1 for the pulse) and as long as
  \<open>t + k * period\<close> does not exceed the range of \<open>unsigned long\<close>, each waveform
  gives at \<open>t + k * period\<close> the output it gives at \<open>t\<close>. For \<open>minL \<le> maxL\<close>,
  both of magnitude at most \<open>2^126\<close> so that no operation leaves the range of single
  precision, the triangle and the sine stay at or above \<open>minL\<close> (\<open>fl minL\<close> is
  \<open>minL\<close> itself for a single-precision argument) and at or below
  \<open>minL + (maxL - minL)\<close> as single precision computes it, which is \<open>maxL\<close> up
  to rounding; the square wave is 0 or 1; the pulse, for a period other than 0, is within
  [0,1].
\<close>

theorem waveform_periodic_bounded:
  "(10 \<le> p \<and> unat t + k * unat p < 2 ^ 32 \<longrightarrow>
      triWave (t + of_nat k * p) p minL maxL = triWave t p minL maxL \<and>
      sineWave (t + of_nat k * p) p minL maxL = sineWave t p minL maxL \<and>
      squareWave (t + of_nat k * p) p duty = squareWave t p duty) \<and>
   (p \<noteq> 0 \<and> unat t + k * unat p < 2 ^ 32 \<longrightarrow>
      heartPulse (t + of_nat k * p) p = heartPulse t p) \<and>
   (minL \<le> maxL \<and> \<bar>minL\<bar> \<le> 2 ^ 126 \<and> \<bar>maxL\<bar> \<le> 2 ^ 126 \<longrightarrow>
      fl minL \<le> triWave t p minL maxL \<and>
      triWave t p minL maxL \<le> fadd minL (fsub maxL minL) \<and>
      fl minL \<le> sineWave t p minL maxL \<and>
      sineWave t p minL maxL \<le> fadd minL (fsub maxL minL)) \<and>
   (squareWave t p duty = 0 \<or> squareWave t p duty = 1) \<and>
   (p \<noteq> 0 \<longrightarrow> (\<exists>y. heartPulse t p = Some y \<and> 0 \<le> y \<and> y \<le> 1))"
proof -
  have per: "triWave (t + of_nat k * p) p minL maxL = triWave t p minL maxL \<and>
      sineWave (t + of_nat k * p) p minL maxL = sineWave t p minL maxL \<and>
      squareWave (t + of_nat k * p) p duty = squareWave t p duty"
    if "10 \<le> p" "unat t + k * unat p < 2 ^ 32"
    using that
    by (simp add: triWave_def sineWave_def squareWave_def clamp_fixed word_add_periods)
  have hp: "heartPulse (t + of_nat k * p) p = heartPulse t p"
    if "unat t + k * unat p < 2 ^ 32"
    using that by (simp add: heartPulse_def word_add_periods)
  show ?thesis
    using per hp triWave_bounds [of minL maxL t p] sineWave_bounds [of minL maxL t p]
      squareWave_values [of t p duty] heartPulse_bounds [of p t]
    by blast
qed

lemma triWave_unfold:
  "triWave t p minL maxL =
     fadd minL (fmul (fsub maxL minL)
       (if fdiv (fl (real (unat (t mod (if p < 10 then 10 else p)))))
                (fl (real (unat (if p < 10 then 10 else p)))) < 0.5
        then fmul (fdiv (fl (real (unat (t mod (if p < 10 then 10 else p)))))
                        (fl (real (unat (if p < 10 then 10 else p))))) 2
        else fsub 2 (fmul (fdiv (fl (real (unat (t mod (if p < 10 then 10 else p)))))
                                (fl (real (unat (if p < 10 then 10 else p))))) 2)))"
  by (simp only: triWave_def Let_def)

lemma squareWave_unfold:
  "squareWave t p duty =
     (if fdiv (fl (real (unat (t mod (if p < 10 then 10 else p)))))
              (fl (real (unat (if p < 10 then 10 else p)))) < duty then 1 else 0)"
  by (simp only: squareWave_def Let_def)

lemmas wave_eval = triWave_unfold squareWave_unfold fops fl_eval

theorem waveform_periodic_bounded_witness:
  "(10::32 word) \<le> 1000 \<and> unat (250::32 word) + 3 * unat (1000::32 word) < 2 ^ 32 \<and>
   (1000::32 word) \<noteq> 0 \<and> (0::real) \<le> 1 \<and> \<bar>0::real\<bar> \<le> 2 ^ 126 \<and> \<bar>1::real\<bar> \<le> 2 ^ 126 \<and>
   triWave (250 + of_nat 3 * 1000) 1000 0 1 = triWave 250 1000 0 1 \<and>
   triWave 250 1000 0 1 = 1 / 2 \<and>
   sineWave (250 + of_nat 3 * 1000) 1000 0 1 = sineWave 250 1000 0 1 \<and>
   squareWave (250 + of_nat 3 * 1000) 1000 (1 / 2) = squareWave 250 1000 (1 / 2) \<and>
   squareWave 250 1000 (1 / 2) = 1 \<and>
   heartPulse (250 + of_nat 3 * 1000) 1000 = heartPulse 250 1000 \<and>
   fl 0 = 0 \<and> fadd 0 (fsub 1 0) = 1 \<and>
   0 \<le> sineWave 250 1000 0 1 \<and> sineWave 250 1000 0 1 \<le> 1 \<and>
   (\<exists>y. heartPulse 250 1000 = Some y \<and> 0 \<le> y \<and> y \<le> 1)"
  using waveform_periodic_bounded [of 1000 250 3 0 1 "1 / 2"]
  by (simp add: wave_eval)

text \<open>
  C7 as stated fails: a period below 10 is replaced by 10, so the triangle of period 3
  differs between \<open>t = 0\<close> and \<open>t = 3\<close>; \<open>t + period\<close> wraps around at
  \<open>2^32\<close>, which moves the phase of period 10; in single precision the triangle
  between \<open>0.09f\<close> and \<open>0.66f\<close> peaks above \<open>0.66f\<close>; and with
  \<open>minL > maxL\<close> the output is not within \<open>[minL, maxL]\<close>.
\<close>

theorem waveform_not_periodic:
  "triWave (0 + of_nat 1 * 3) 3 0 1 \<noteq> triWave 0 3 0 1 \<and>
   triWave (4294967295 + of_nat 1 * 10) 10 0 1 \<noteq> triWave 4294967295 10 0 1 \<and>
   fl 0.09 \<le> fl 0.66 \<and> fl 0.66 < triWave 5 10 (fl 0.09) (fl 0.66) \<and>
   \<not> (1 \<le> triWave 5 10 1 0 \<and> triWave 5 10 1 0 \<le> 0)"
  by (simp add: wave_eval)

text \<open>
  C8. \<open>heartPulse\<close> does not clamp its period: with period 0 its remainder and
  division are undefined, while the triangle, sine and square waves treat period 0 as
  period 10.
\<close>

theorem heartPulse_no_clamp:
  "heartPulse t 0 = None \<and>
   triWave t 0 minL maxL = triWave t 10 minL maxL \<and>
   sineWave t 0 minL maxL = sineWave t 10 minL maxL \<and>
   squareWave t 0 duty = squareWave t 10 duty"
  by (simp add: heartPulse_def triWave_def sineWave_def squareWave_def)

section \<open>Properties of the behaviours and the loop\<close>

lemma setPressureMiddle_frame:
  "SPEED_FACTOR (setPressureMiddle d i j a g) = SPEED_FACTOR g"
  "ledChaseIndex (setPressureMiddle d i j a g) = ledChaseIndex g"
  "current (setPressureMiddle d i j a g) = current g"
  "stateEndMs (setPressureMiddle d i j a g) = stateEndMs g"
  by (simp_all add: setPressureMiddle_def analogWrite_def Let_def)

lemma setPressureLeaves_frame:
  "SPEED_FACTOR (setPressureLeaves d i j a g) = SPEED_FACTOR g"
  "ledChaseIndex (setPressureLeaves d i j a g) = ledChaseIndex g"
  "current (setPressureLeaves d i j a g) = current g"
  "stateEndMs (setPressureLeaves d i j a g) = stateEndMs g"
  by (simp_all add: setPressureLeaves_def analogWrite_def Let_def)

lemmas frame = setPressureMiddle_frame setPressureLeaves_frame

lemma runCurious_chase:
  "ledChaseIndex (snd (runCurious now a1 a2 g)) = (ledChaseIndex g + 1) mod (ucast NUM_LEDS * 4)"
  by (simp add: runCurious_def Let_def frame)

lemma uint8_colours:
  "uint8_of_float (fmul 220 1) = 220" "uint8_of_float (fmul 180 1) = 180"
  "uint8_of_float (fmul 40 1) = 40" "uint8_of_float (fmul 220 (1 / 4)) = 55"
  "uint8_of_float (fmul 180 (1 / 4)) = 45" "uint8_of_float (fmul 40 (1 / 4)) = 10"
  by (simp_all add: uint8_of_float_def trunc_def fops fl_eval)

lemma runCurious_visual:
  "visual (fst (runCurious now a1 a2 g)) =
     SetBrightness 60 #
     map (\<lambda>i. if (ucast ((ucast i + ledChaseIndex g div 2) mod ucast NUM_LEDS) :: 8 word) = i
              then SetPixelColor i (RGB 220 180 40)
              else SetPixelColor (ucast ((ucast i + ledChaseIndex g div 2) mod ucast NUM_LEDS))
                     (RGB 55 45 10)) pixels @ [Show]"
  by (simp add: runCurious_def Let_def frame uint8_colours cong: if_cong)

lemma pixels_list: "pixels = [0, 1, 2, 3, 4, 5, 6, 7, 8, 9, 10, 11, 12, 13, 14, 15]"
  by (simp add: pixels_def NUM_LEDS_def upt_conv_Cons)

text \<open>
  C9 as stated fails: \<open>runCurious\<close> reads and advances the global
  \<open>ledChaseIndex\<close>. Called three times in a row with the same clock reading and the
  same sensor readings, its third call sends other colours to the ring than its first,
  and already the first call changes the index.
\<close>

theorem curious_visual_depends_on_chase:
  "visual (fst (runCurious 0 0 0 (snd (runCurious 0 0 0 (snd (runCurious 0 0 0 g_init))))))
     \<noteq> visual (fst (runCurious 0 0 0 g_init)) \<and>
   ledChaseIndex (snd (runCurious 0 0 0 g_init)) \<noteq> ledChaseIndex g_init"
  by (simp add: runCurious_visual runCurious_chase g_init_def NUM_LEDS_def pixels_list)

lemma obs_Some:
  "levels_of (Some x) = Some (levelBase (fst x), levelLeaves (fst x))"
  "visual_of (Some x) = Some (visual (fst x))"
  "chase_of (Some x) = Some (ledChaseIndex (snd x))"
  by (simp_all add: levels_of_def visual_of_def chase_of_def)

lemma obs_None: "levels_of None = None" "visual_of None = None" "chase_of None = None"
  by (simp_all add: levels_of_def visual_of_def chase_of_def)

lemma runNeutral_dep:
  assumes "SPEED_FACTOR g = SPEED_FACTOR g'"
  shows "fst (runNeutral now a1 a2 g) = fst (runNeutral now b1 b2 g')"
    and "ledChaseIndex (snd (runNeutral now a1 a2 g)) = ledChaseIndex g"
  using assms by (simp_all add: runNeutral_def Let_def frame)

lemma runCalm_dep:
  assumes "SPEED_FACTOR g = SPEED_FACTOR g'"
  shows "fst (runCalm now a1 a2 g) = fst (runCalm now b1 b2 g')"
    and "ledChaseIndex (snd (runCalm now a1 a2 g)) = ledChaseIndex g"
  using assms by (simp_all add: runCalm_def Let_def frame split: RGB.split)

lemma runSad_dep:
  assumes "SPEED_FACTOR g = SPEED_FACTOR g'"
  shows "fst (runSad now a1 a2 g) = fst (runSad now b1 b2 g')"
    and "ledChaseIndex (snd (runSad now a1 a2 g)) = ledChaseIndex g"
  using assms by (simp_all add: runSad_def Let_def frame split: RGB.split)

lemma runCurious_dep:
  assumes "SPEED_FACTOR g = SPEED_FACTOR g'"
  shows "levelBase (fst (runCurious now a1 a2 g)) = levelBase (fst (runCurious now b1 b2 g'))"
    and "levelLeaves (fst (runCurious now a1 a2 g)) = levelLeaves (fst (runCurious now b1 b2 g'))"
    and "ledChaseIndex g = ledChaseIndex g' \<Longrightarrow>
         visual (fst (runCurious now a1 a2 g)) = visual (fst (runCurious now b1 b2 g'))"
  using assms by (simp_all add: runCurious_def Let_def frame)

lemma runAngry_dep:
  assumes "SPEED_FACTOR g = SPEED_FACTOR g'"
  shows "levels_of (runAngry now a1 a2 g) = levels_of (runAngry now b1 b2 g')"
    and "ledChaseIndex g = ledChaseIndex g' \<Longrightarrow>
         visual_of (runAngry now a1 a2 g) = visual_of (runAngry now b1 b2 g')"
  using assms
  by (simp_all add: runAngry_def Let_def frame obs_Some obs_None split: option.split)

text \<open>
  C9, as amended. For every state, the two levels handed to the regulators depend only on
  the state, the clock reading and the speed factor: not on the sensor readings and not
  on any other global. For NEUTRAL, CALM and SAD the same holds for what is sent to the
  ring, and these behaviours leave \<open>ledChaseIndex\<close> as it is. For CURIOUS and ANGRY
  what is sent to the ring depends on \<open>ledChaseIndex\<close> as well: it is the same in
  two calls whenever that index is the same.
\<close>

theorem behaviour_outputs_pure:
  "SPEED_FACTOR g = SPEED_FACTOR g' \<longrightarrow>
     levels_of (runBehavior s now a1 a2 g) = levels_of (runBehavior s now b1 b2 g') \<and>
     (s \<in> {NEUTRAL, CALM, SAD} \<or> ledChaseIndex g = ledChaseIndex g' \<longrightarrow>
        visual_of (runBehavior s now a1 a2 g) = visual_of (runBehavior s now b1 b2 g')) \<and>
     (s \<in> {NEUTRAL, CALM, SAD} \<longrightarrow>
        chase_of (runBehavior s now a1 a2 g) = Some (ledChaseIndex g))"
proof
  assume sf: "SPEED_FACTOR g = SPEED_FACTOR g'"
  show "levels_of (runBehavior s now a1 a2 g) = levels_of (runBehavior s now b1 b2 g') \<and>
     (s \<in> {NEUTRAL, CALM, SAD} \<or> ledChaseIndex g = ledChaseIndex g' \<longrightarrow>
        visual_of (runBehavior s now a1 a2 g) = visual_of (runBehavior s now b1 b2 g')) \<and>
     (s \<in> {NEUTRAL, CALM, SAD} \<longrightarrow>
        chase_of (runBehavior s now a1 a2 g) = Some (ledChaseIndex g))"
  proof (cases s)
    case NEUTRAL
    then show ?thesis
      using runNeutral_dep(1) [OF sf, of now a1 a2 b1 b2] runNeutral_dep(2) [OF sf, of now a1 a2]
      by (simp add: obs_Some)
  next
    case CALM
    then show ?thesis
      using runCalm_dep(1) [OF sf, of now a1 a2 b1 b2] runCalm_dep(2) [OF sf, of now a1 a2]
      by (simp add: obs_Some)
  next
    case CURIOUS
    then show ?thesis
      using runCurious_dep(1) [OF sf, of now a1 a2 b1 b2] runCurious_dep(2) [OF sf, of now a1 a2 b1 b2]
        runCurious_dep(3) [OF sf, of now a1 a2 b1 b2]
      by (simp add: obs_Some)
  next
    case ANGRY
    then show ?thesis
      using runAngry_dep(1) [OF sf, of now a1 a2 b1 b2] runAngry_dep(2) [OF sf, of now a1 a2 b1 b2]
      by simp
  next
    case SAD
    then show ?thesis
      using runSad_dep(1) [OF sf, of now a1 a2 b1 b2] runSad_dep(2) [OF sf, of now a1 a2]
      by (simp add: obs_Some)
  qed
qed

theorem behaviour_outputs_pure_witness:
  "SPEED_FACTOR g_init = SPEED_FACTOR (g_init\<lparr>ledChaseIndex := 7\<rparr>) \<and>
   CALM \<in> {NEUTRAL, CALM, SAD} \<and>
   levels_of (runBehavior CALM 2000 300 400 g_init)
     = levels_of (runBehavior CALM 2000 80 90 (g_init\<lparr>ledChaseIndex := 7\<rparr>)) \<and>
   visual_of (runBehavior CALM 2000 300 400 g_init)
     = visual_of (runBehavior CALM 2000 80 90 (g_init\<lparr>ledChaseIndex := 7\<rparr>)) \<and>
   chase_of (runBehavior CALM 2000 300 400 g_init) = Some (ledChaseIndex g_init)"
  using behaviour_outputs_pure [of g_init "g_init\<lparr>ledChaseIndex := 7\<rparr>" CALM 2000 300 400 80 90]
  by simp

text \<open>
  C2. One iteration of \<open>loop\<close> runs the NEUTRAL behaviour with its clock reading,
  whatever the current state is, and leaves both the current state and the deadline
  \<open>stateEndMs\<close> unchanged, also when the clock has passed the deadline: the call of
  \<open>runBehavior\<close> and the check that advances the state are commented out.
\<close>

theorem loop_never_advances:
  "current (snd (loop now a1 a2 g)) = current g \<and>
   stateEndMs (snd (loop now a1 a2 g)) = stateEndMs g \<and>
   Some (loop now a1 a2 g) = runBehavior NEUTRAL now a1 a2 g"
  by (simp add: loop_def runNeutral_def Let_def frame)

end
